theory Spec2Isabelle
  imports Complex_Main
begin

section \<open>Strings and the library functions the program calls\<close>

text \<open>
  A Go string is a sequence of bytes and \<open>len\<close> counts bytes, so a Go string is a
  \<^typ>\<open>string\<close> here (a list of 8-bit characters) and \<open>len s\<close> is \<open>int (length s)\<close>.

  \<open>strings.Fields\<close> cuts its argument around runs of white space as \<open>unicode.IsSpace\<close>
  defines it: the six ASCII characters tab, line feed, vertical tab, form feed, carriage
  return and space, and the code points U+0085, U+00A0, U+1680, U+2000..U+200A, U+2028,
  U+2029, U+202F, U+205F and U+3000. On bytes these are exactly the UTF-8 encodings
  below; a byte that opens none of them belongs to a field. (A lead byte is never
  consumed as the continuation of another rune, so looking at the bytes at each position
  agrees with decoding rune by rune.)
\<close>

definition asciiSpace :: "char \<Rightarrow> bool" where
  "asciiSpace c \<longleftrightarrow>
     c = CHR 0x09 \<or> c = CHR 0x0A \<or> c = CHR 0x0B \<or> c = CHR 0x0C \<or> c = CHR 0x0D \<or> c = CHR 0x20"

text \<open>The number of bytes of the white-space rune that starts the string, 0 when none does.\<close>

fun spaceWidth :: "string \<Rightarrow> nat" where
  "spaceWidth [] = 0"
| "spaceWidth (c # cs) =
     (if asciiSpace c then 1
      else if c = CHR 0xC2 then
        (case cs of
           d # _ \<Rightarrow> if d = CHR 0x85 \<or> d = CHR 0xA0 then 2 else 0
         | [] \<Rightarrow> 0)
      else if c = CHR 0xE1 then
        (case cs of
           d # e # _ \<Rightarrow> if d = CHR 0x9A \<and> e = CHR 0x80 then 3 else 0
         | _ \<Rightarrow> 0)
      else if c = CHR 0xE2 then
        (case cs of
           d # e # _ \<Rightarrow>
             if d = CHR 0x80 \<and>
                ((0x80 \<le> (of_char e :: nat) \<and> (of_char e :: nat) \<le> 0x8A)
                 \<or> e = CHR 0xA8 \<or> e = CHR 0xA9 \<or> e = CHR 0xAF)
             then 3
             else if d = CHR 0x81 \<and> e = CHR 0x9F then 3 else 0
         | _ \<Rightarrow> 0)
      else if c = CHR 0xE3 then
        (case cs of
           d # e # _ \<Rightarrow> if d = CHR 0x80 \<and> e = CHR 0x80 then 3 else 0
         | _ \<Rightarrow> 0)
      else 0)"

text \<open>
  \<open>fieldsFrom skip cur s\<close> scans \<open>s\<close>: \<open>skip\<close> bytes of a white-space rune are still to
  be passed over, \<open>cur\<close> is the field read so far. A white-space rune closes a non-empty
  field; the end of the string closes the last one.
\<close>

fun fieldsFrom :: "nat \<Rightarrow> string \<Rightarrow> string \<Rightarrow> string list" where
  "fieldsFrom skip cur [] = (if cur = [] then [] else [cur])"
| "fieldsFrom skip cur (c # cs) =
     (if 0 < skip then fieldsFrom (skip - 1) cur cs
      else if spaceWidth (c # cs) = 0 then fieldsFrom 0 (cur @ [c]) cs
      else if cur = [] then fieldsFrom (spaceWidth (c # cs) - 1) [] cs
      else cur # fieldsFrom (spaceWidth (c # cs) - 1) [] cs)"

definition Fields :: "string \<Rightarrow> string list" where
  "Fields s = fieldsFrom 0 [] s"

text \<open>\<open>strings.Join\<close>: the elements with the separator between each two of them.\<close>

fun Join :: "string list \<Rightarrow> string \<Rightarrow> string" where
  "Join [] sep = []"
| "Join [x] sep = x"
| "Join (x # y # ys) sep = x @ sep @ Join (y # ys) sep"

section \<open>The chunker\<close>

text \<open>
  \<open>splitTextIntoChunks\<close> (main.go, lines 256 to 279). The loop over the words carries
  the finished chunks and the current chunk; \<open>chunkLoop\<close> is that loop, returning both
  at its end. The sum \<open>len(currentChunk)+len(word)+1\<close> is at most the length of the text
  (the two are disjoint pieces of it with white space between them), so it does not
  overflow Go's 64-bit \<open>int\<close> and is computed in \<^typ>\<open>int\<close>. The chunk size is any
  \<open>int\<close>, negative ones included.
\<close>

fun chunkLoop :: "int \<Rightarrow> string list \<Rightarrow> string \<Rightarrow> string list \<Rightarrow> string list \<times> string" where
  "chunkLoop chunkSize chunks currentChunk [] = (chunks, currentChunk)"
| "chunkLoop chunkSize chunks currentChunk (word # words) =
     (if int (length currentChunk) + int (length word) + 1 > chunkSize
      then chunkLoop chunkSize (chunks @ [currentChunk]) word words
      else if currentChunk = []
      then chunkLoop chunkSize chunks word words
      else chunkLoop chunkSize chunks (currentChunk @ '' '' @ word) words)"

definition splitWords :: "string list \<Rightarrow> int \<Rightarrow> string list" where
  "splitWords ws chunkSize =
     (case chunkLoop chunkSize [] [] ws of
        (chunks, currentChunk) \<Rightarrow>
          if currentChunk \<noteq> [] then chunks @ [currentChunk] else chunks)"

definition splitTextIntoChunks :: "string \<Rightarrow> int \<Rightarrow> string list" where
  "splitTextIntoChunks text chunkSize = splitWords (Fields text) chunkSize"

text \<open>
  Two auxiliary functions for the proofs about the chunker: \<open>glue\<close> puts one space
  between two strings unless one of them is empty, \<open>glueAll\<close> does so along a list.
\<close>

definition glue :: "string \<Rightarrow> string \<Rightarrow> string" where
  "glue a b = (if a = [] then b else if b = [] then a else a @ '' '' @ b)"

fun glueAll :: "string list \<Rightarrow> string" where
  "glueAll [] = []"
| "glueAll (x # xs) = glue x (glueAll xs)"

section \<open>The ratio\<close>

text \<open>
  The ratio is a Go \<open>float64\<close>; the flag package parses it with \<open>strconv.ParseFloat\<close>,
  which accepts \<open>NaN\<close> and the infinities as well as numbers. The program only compares
  the ratio and passes it on, and comparing two floating-point numbers is comparing the
  reals they stand for, so a finite value is modelled by its real number (both zeros are
  \<open>Finite 0\<close>). Every comparison with NaN is false. The constant \<open>0.1\<close> is the
  \<open>float64\<close> nearest to one tenth, \<open>3602879701896397 / 2^55\<close>; \<open>0.5\<close> is exact.
\<close>

datatype float64 = Finite real | PosInf | NegInf | NaN

fun flt :: "float64 \<Rightarrow> float64 \<Rightarrow> bool" where
  "flt (Finite a) (Finite b) = (a < b)"
| "flt (Finite a) PosInf = True"
| "flt NegInf (Finite b) = True"
| "flt NegInf PosInf = True"
| "flt _ _ = False"

definition fgt :: "float64 \<Rightarrow> float64 \<Rightarrow> bool" where
  "fgt a b = flt b a"

fun fle :: "float64 \<Rightarrow> float64 \<Rightarrow> bool" where
  "fle (Finite a) (Finite b) = (a \<le> b)"
| "fle NaN _ = False"
| "fle _ NaN = False"
| "fle NegInf _ = True"
| "fle _ PosInf = True"
| "fle _ _ = False"

definition ratioMin :: float64 where
  "ratioMin = Finite (3602879701896397 / 36028797018963968)"

definition ratioMax :: float64 where
  "ratioMax = Finite (1 / 2)"

text \<open>The first statement of \<open>summarizeText\<close> (main.go, lines 178 to 182).\<close>

definition clampRatio :: "float64 \<Rightarrow> float64" where
  "clampRatio ratio =
     (if flt ratio ratioMin then ratioMin
      else if fgt ratio ratioMax then ratioMax
      else ratio)"

section \<open>Paths\<close>

text \<open>
  \<open>filepath.Ext\<close> walks back from the end of the path to the last dot, stopping at a
  path separator: the slash, and on Windows the backslash too. \<open>extScan\<close> is that loop
  on the reversed path, \<open>acc\<close> holding the bytes already passed.
  \<open>strings.TrimSuffix\<close> removes the suffix when the string ends with it.
\<close>

definition IsPathSeparator :: "bool \<Rightarrow> char \<Rightarrow> bool" where
  "IsPathSeparator windows c \<longleftrightarrow> c = CHR ''/'' \<or> (windows \<and> c = CHR 0x5C)"

fun extScan :: "bool \<Rightarrow> string \<Rightarrow> string \<Rightarrow> string" where
  "extScan windows acc [] = []"
| "extScan windows acc (c # rest) =
     (if IsPathSeparator windows c then []
      else if c = CHR ''.'' then c # acc
      else extScan windows (c # acc) rest)"

definition Ext :: "bool \<Rightarrow> string \<Rightarrow> string" where
  "Ext windows path = extScan windows [] (rev path)"

definition HasSuffix :: "string \<Rightarrow> string \<Rightarrow> bool" where
  "HasSuffix s suffix \<longleftrightarrow>
     length suffix \<le> length s \<and> drop (length s - length suffix) s = suffix"

definition TrimSuffix :: "string \<Rightarrow> string \<Rightarrow> string" where
  "TrimSuffix s suffix =
     (if HasSuffix s suffix then take (length s - length suffix) s else s)"

text \<open>
  The output path each subcommand works with (main.go, lines 90 to 93, 297 to 300 and
  335 to 338): the \<open>-o\<close> value, or the default derived from the input path when it is
  empty.
\<close>

definition generateOutputPath :: "bool \<Rightarrow> string \<Rightarrow> string \<Rightarrow> string" where
  "generateOutputPath windows videoPath outputPath =
     (if outputPath = [] then TrimSuffix videoPath (Ext windows videoPath) @ ''.txt''
      else outputPath)"

definition transcribeOutputPath :: "bool \<Rightarrow> string \<Rightarrow> string \<Rightarrow> string" where
  "transcribeOutputPath windows audioPath outputPath =
     (if outputPath = [] then TrimSuffix audioPath (Ext windows audioPath) @ ''.txt''
      else outputPath)"

definition summarizeOutputPath :: "bool \<Rightarrow> string \<Rightarrow> string \<Rightarrow> string" where
  "summarizeOutputPath windows inputPath outputPath =
     (if outputPath = [] then TrimSuffix inputPath (Ext windows inputPath) @ ''.summary.txt''
      else outputPath)"

section \<open>Errors, the environment and the trace\<close>

text \<open>
  An error of the operating system, of \<open>ffmpeg\<close> or of the remote service is opaque to
  the program: it is \<open>External\<close> with its message. \<open>fmt.Errorf\<close> with \<open>%w\<close> wraps an
  error under a label; the labels stand for the messages of the source:
  \<open>PartFailed k\<close> for the message of line 226 with the part number \<open>k\<close>,
  \<open>ReadTranscriptFailed\<close> for line 189, \<open>WriteSummaryFailed\<close> for line 250, and so on.
  The four errors without a cause are those of lines 87, 294, 332 and 341.
\<close>

datatype label =
    MkdirTempFailed | ExtractFailed | TranscribeFailed | SummarizeFailed
  | FfmpegFailed string
  | OpenAudioFailed | CallApiFailed | CreateOutputFailed | WriteTranscriptFailed
  | ReadTranscriptFailed | PartFailed nat | WriteSummaryFailed

datatype error =
    External string
  | MissingVideo | MissingAudio | MissingInput | RatioOutOfRange
  | Wrapped label error

text \<open>
  A chat-completion request is determined by the model, the chunk and the ratio: the
  prompt of lines 206 to 211 embeds the chunk and \<open>ratio*100\<close>, the temperature is fixed
  and \<open>MaxTokens\<close> is \<open>int(float64(len(text)) * ratio * 1.5)\<close>.
\<close>

record request =
  reqModel :: string
  reqText :: string
  reqRatio :: float64

text \<open>
  What the program does to the world is recorded as a trace of events, in the order of
  the calls; what the world answers is given by the functions of the environment. The
  answer to the request for chunk \<open>i\<close> is a failure or the contents of the choices of
  the response. (Calls to \<open>log.Printf\<close> and the closing of files are left out.)
\<close>

datatype event =
    EvMkdirTemp
  | EvRemoveAll string
  | EvExec "string list"
  | EvOpen string
  | EvTranscription string string
  | EvCreate string
  | EvWriteString string string
  | EvReadFile string
  | EvRequest nat request
  | EvWriteFile string string

record env =
  windows :: bool
  mkdirTemp :: "string + string"
  filepathJoin :: "string \<Rightarrow> string \<Rightarrow> string"
  ffmpeg :: "string list \<Rightarrow> (string \<times> string) option"
  openFile :: "string \<Rightarrow> string option"
  createTranscription :: "string \<Rightarrow> string \<Rightarrow> string + string"
  createFile :: "string \<Rightarrow> string option"
  writeString :: "string \<Rightarrow> string \<Rightarrow> string option"
  readFile :: "string \<Rightarrow> string + string"
  chat :: "nat \<Rightarrow> request \<Rightarrow> string + string list"
  writeFile :: "string \<Rightarrow> string \<Rightarrow> string option"

text \<open>A call has returned an error or \<open>nil\<close>, or it has not returned.\<close>

datatype outcome = Returned "error option" | NotReturned

section \<open>Extracting and transcribing\<close>

text \<open>\<open>extractAudio\<close> (main.go, lines 135 to 142); the error carries the output of the command.\<close>

definition extractAudio :: "env \<Rightarrow> string \<Rightarrow> string \<Rightarrow> error option \<times> event list" where
  "extractAudio env videoPath audioPath =
     (let cmd = [''ffmpeg'', ''-i'', videoPath, ''-vn'', ''-acodec'', ''libmp3lame'', audioPath]
      in case ffmpeg env cmd of
           Some (err, output) \<Rightarrow> (Some (Wrapped (FfmpegFailed output) (External err)), [EvExec cmd])
         | None \<Rightarrow> (None, [EvExec cmd]))"

text \<open>\<open>transcribeAudio\<close> (main.go, lines 144 to 174).\<close>

definition transcribeAudio :: "env \<Rightarrow> string \<Rightarrow> string \<Rightarrow> string \<Rightarrow> error option \<times> event list" where
  "transcribeAudio env model audioPath outputPath =
     (case openFile env audioPath of
        Some err \<Rightarrow> (Some (Wrapped OpenAudioFailed (External err)), [EvOpen audioPath])
      | None \<Rightarrow>
          (case createTranscription env model audioPath of
             Inl err \<Rightarrow>
               (Some (Wrapped CallApiFailed (External err)),
                [EvOpen audioPath, EvTranscription model audioPath])
           | Inr text \<Rightarrow>
               (case createFile env outputPath of
                  Some err \<Rightarrow>
                    (Some (Wrapped CreateOutputFailed (External err)),
                     [EvOpen audioPath, EvTranscription model audioPath, EvCreate outputPath])
                | None \<Rightarrow>
                    (case writeString env outputPath text of
                       Some err \<Rightarrow>
                         (Some (Wrapped WriteTranscriptFailed (External err)),
                          [EvOpen audioPath, EvTranscription model audioPath,
                           EvCreate outputPath, EvWriteString outputPath text])
                     | None \<Rightarrow>
                         (None,
                          [EvOpen audioPath, EvTranscription model audioPath,
                           EvCreate outputPath, EvWriteString outputPath text])))))"

section \<open>The summarizer\<close>

text \<open>
  The separator of line 246, byte for byte: two line feeds, three dashes, a space, the
  UTF-8 bytes of the first Chinese character, the two bytes \<open>%d\<close>, the bytes of the other
  four characters, a space, three dashes, two line feeds.
\<close>

definition separator :: string where
  "separator =
     [CHR 0x0A, CHR 0x0A] @ ''--- '' @ [CHR 0xE7, CHR 0xAC, CHR 0xAC] @ ''%d'' @
     [CHR 0xE9, CHR 0x83, CHR 0xA8, CHR 0xE5, CHR 0x88, CHR 0x86,
      CHR 0xE7, CHR 0xBB, CHR 0x93, CHR 0xE6, CHR 0x9D, CHR 0x9F] @ '' ---'' @
     [CHR 0x0A, CHR 0x0A]"

text \<open>
  The requests of one call of \<open>summarizeText\<close>: one for each chunk of the transcript
  (cut with the budget 3000 of line 193), all with the ratio as it is after the first
  statement of the function.
\<close>

definition requests :: "string \<Rightarrow> string \<Rightarrow> float64 \<Rightarrow> request list" where
  "requests model transcript ratio =
     map (\<lambda>text. \<lparr>reqModel = model, reqText = text, reqRatio = clampRatio ratio\<rparr>)
       (splitTextIntoChunks transcript 3000)"

text \<open>
  Lines 194 to 251 run one goroutine for each chunk, one that closes the error channel
  once all of them are done, and the caller, which drains the channel. Their shared
  state:
  \<^item> \<open>finished\<close>: the chunks whose goroutine is done, in the order in which they finished
    (the wait group counts them);
  \<^item> \<open>errChan\<close>: the errors sent and not yet received (the channel has room for one error
    for each chunk, so a send never blocks);
  \<^item> \<open>chanClosed\<close>, \<open>summaries\<close>;
  \<^item> \<open>caller\<close>: whether \<open>summarizeText\<close> has returned, and what;
  \<^item> \<open>effects\<close>: the trace;
  \<^item> \<open>panicked\<close>: a goroutine has indexed a response without choices (line 230), which
    ends the process.

  A goroutine touches the shared state once, at its end: it sends its error or appends
  its fragment. Its whole body is therefore one action. The append of line 230 is not
  synchronised in the source: \<open>Finish i\<close> is the end of a goroutine whose append ran
  alone, \<open>FinishRaced i xs\<close> the end of one whose append raced with another, after
  which the slice holds \<open>xs\<close>; the model leaves \<open>xs\<close> open, so every statement about all
  schedules holds whatever a race leaves in the slice.
  \<open>Receive\<close> is one turn of the caller's loop of line 239: it takes the first error of
  the channel and returns it, or, when the channel is closed and empty, leaves the loop,
  joins the fragments and writes the file; on an open and empty channel it is blocked.
\<close>

datatype action = Finish nat | FinishRaced nat "string list" | CloseChan | Receive

record sstate =
  finished :: "nat list"
  errChan :: "error list"
  chanClosed :: bool
  summaries :: "string list"
  caller :: outcome
  effects :: "event list"
  panicked :: bool

definition start :: sstate where
  "start = \<lparr>finished = [], errChan = [], chanClosed = False, summaries = [],
            caller = NotReturned, effects = [], panicked = False\<rparr>"

definition finishTask :: "env \<Rightarrow> request list \<Rightarrow> nat \<Rightarrow> sstate \<Rightarrow> sstate" where
  "finishTask env reqs i s =
     (case chat env i (reqs ! i) of
        Inl err \<Rightarrow>
          s\<lparr>finished := finished s @ [i],
            errChan := errChan s @ [Wrapped (PartFailed (i + 1)) (External err)],
            effects := effects s @ [EvRequest i (reqs ! i)]\<rparr>
      | Inr [] \<Rightarrow>
          s\<lparr>effects := effects s @ [EvRequest i (reqs ! i)], panicked := True\<rparr>
      | Inr (content # _) \<Rightarrow>
          s\<lparr>finished := finished s @ [i],
            summaries := summaries s @ [content],
            effects := effects s @ [EvRequest i (reqs ! i)]\<rparr>)"

definition finishRaced :: "env \<Rightarrow> request list \<Rightarrow> nat \<Rightarrow> string list \<Rightarrow> sstate \<Rightarrow> sstate" where
  "finishRaced env reqs i xs s =
     (case chat env i (reqs ! i) of
        Inr (content # _) \<Rightarrow> (finishTask env reqs i s)\<lparr>summaries := xs\<rparr>
      | _ \<Rightarrow> finishTask env reqs i s)"

definition writeSummary :: "env \<Rightarrow> string \<Rightarrow> sstate \<Rightarrow> sstate" where
  "writeSummary env outputPath s =
     (let combinedSummary = Join (summaries s) separator
      in s\<lparr>caller :=
             Returned (case writeFile env outputPath combinedSummary of
                         Some err \<Rightarrow> Some (Wrapped WriteSummaryFailed (External err))
                       | None \<Rightarrow> None),
           effects := effects s @ [EvWriteFile outputPath combinedSummary]\<rparr>)"

text \<open>One action, when it can be taken (\<open>reqs ! i\<close> is read below the length only).\<close>

fun step :: "env \<Rightarrow> request list \<Rightarrow> string \<Rightarrow> action \<Rightarrow> sstate \<Rightarrow> sstate option" where
  "step env reqs outputPath (Finish i) s =
     (if panicked s \<or> \<not> i < length reqs \<or> i \<in> set (finished s) then None
      else Some (finishTask env reqs i s))"
| "step env reqs outputPath (FinishRaced i xs) s =
     (if panicked s \<or> \<not> i < length reqs \<or> i \<in> set (finished s) then None
      else Some (finishRaced env reqs i xs s))"
| "step env reqs outputPath CloseChan s =
     (if panicked s \<or> chanClosed s \<or> length (finished s) < length reqs then None
      else Some (s\<lparr>chanClosed := True\<rparr>))"
| "step env reqs outputPath Receive s =
     (if panicked s \<or> caller s \<noteq> NotReturned then None
      else case errChan s of
             err # errs \<Rightarrow> Some (s\<lparr>errChan := errs, caller := Returned (Some err)\<rparr>)
           | [] \<Rightarrow> if chanClosed s then Some (writeSummary env outputPath s) else None)"

text \<open>
  A schedule is the list of actions the scheduler picks; one that cannot be taken in
  the state it meets is passed over. Every interleaving of the goroutines is the run of
  some schedule.
\<close>

fun run :: "env \<Rightarrow> request list \<Rightarrow> string \<Rightarrow> action list \<Rightarrow> sstate \<Rightarrow> sstate" where
  "run env reqs outputPath [] s = s"
| "run env reqs outputPath (a # as) s =
     (case step env reqs outputPath a s of
        None \<Rightarrow> run env reqs outputPath as s
      | Some s' \<Rightarrow> run env reqs outputPath as s')"

definition summarizeRun ::
  "env \<Rightarrow> action list \<Rightarrow> string \<Rightarrow> string \<Rightarrow> string \<Rightarrow> float64 \<Rightarrow> sstate" where
  "summarizeRun env sched model transcript outputPath ratio =
     run env (requests model transcript ratio) outputPath sched start"

text \<open>
  \<open>summarizeText\<close> (main.go, lines 176 to 254) under a schedule: what it returns, if it
  has returned when the schedule ends, and its trace. (The API key only configures the
  client and is left out.)
\<close>

definition summarizeText ::
  "env \<Rightarrow> action list \<Rightarrow> string \<Rightarrow> string \<Rightarrow> string \<Rightarrow> float64 \<Rightarrow> outcome \<times> event list" where
  "summarizeText env sched model inputPath outputPath ratio =
     (case readFile env inputPath of
        Inl err \<Rightarrow>
          (Returned (Some (Wrapped ReadTranscriptFailed (External err))), [EvReadFile inputPath])
      | Inr transcript \<Rightarrow>
          (let s = summarizeRun env sched model transcript outputPath ratio
           in (caller s, EvReadFile inputPath # effects s)))"

text \<open>
  Notions for the statements about the runs: the errors sent to the channel by the
  goroutines that are done, in the order of sending; the fragments of the goroutines
  that are done, in the order in which they finished; the events that write a file; a
  bound on the number of actions that can still be taken; the actions other than a
  raced append.
\<close>

definition sentErrors :: "env \<Rightarrow> request list \<Rightarrow> nat list \<Rightarrow> error list" where
  "sentErrors env reqs done =
     concat (map (\<lambda>i. case chat env i (reqs ! i) of
                        Inl err \<Rightarrow> [Wrapped (PartFailed (i + 1)) (External err)]
                      | Inr _ \<Rightarrow> []) done)"

definition collected :: "env \<Rightarrow> request list \<Rightarrow> nat list \<Rightarrow> string list" where
  "collected env reqs done =
     concat (map (\<lambda>i. case chat env i (reqs ! i) of
                        Inr (content # _) \<Rightarrow> [content]
                      | _ \<Rightarrow> []) done)"

definition isWrite :: "event \<Rightarrow> bool" where
  "isWrite ev = (case ev of EvWriteFile _ _ \<Rightarrow> True | _ \<Rightarrow> False)"


fun atomicAppend :: "action \<Rightarrow> bool" where
  "atomicAppend (FinishRaced i xs) = False"
| "atomicAppend a = True"

text \<open>
  What holds of every state a run can reach: the finished chunks are distinct and below
  the number of requests; the channel is closed only when all are done; every event is a request of the list or a write to the
  output path; while the caller has not returned the channel holds every error sent and
  nothing was written; once it has returned, either it returned the first error sent
  and nothing was written, or no error was sent, the channel is closed and the one write
  is the joined fragments.
\<close>

definition requestsOk :: "request list \<Rightarrow> string \<Rightarrow> event \<Rightarrow> bool" where
  "requestsOk reqs outputPath ev =
     (case ev of
        EvRequest i r \<Rightarrow> i < length reqs \<and> r = reqs ! i
      | EvWriteFile p c \<Rightarrow> p = outputPath
      | _ \<Rightarrow> False)"

definition consistent :: "env \<Rightarrow> request list \<Rightarrow> string \<Rightarrow> sstate \<Rightarrow> bool" where
  "consistent env reqs outputPath s \<longleftrightarrow>
     distinct (finished s) \<and> set (finished s) \<subseteq> {..<length reqs} \<and>
     (chanClosed s \<longrightarrow> length (finished s) = length reqs) \<and>
     (\<forall>ev\<in>set (effects s). requestsOk reqs outputPath ev) \<and>
     (case caller s of
        NotReturned \<Rightarrow>
          errChan s = sentErrors env reqs (finished s) \<and> filter isWrite (effects s) = []
      | Returned r \<Rightarrow>
          (sentErrors env reqs (finished s) \<noteq> [] \<and>
           r = Some (hd (sentErrors env reqs (finished s))) \<and>
           filter isWrite (effects s) = [])
          \<or>
          (sentErrors env reqs (finished s) = [] \<and> chanClosed s \<and>
           filter isWrite (effects s) =
             [EvWriteFile outputPath (Join (summaries s) separator)] \<and>
           r = (case writeFile env outputPath (Join (summaries s) separator) of
                  Some err \<Rightarrow> Some (Wrapped WriteSummaryFailed (External err))
                | None \<Rightarrow> None)))"

section \<open>The subcommands\<close>

text \<open>
  The \<open>Exec\<close> functions of the three subcommands, on the values of their flags. A
  subcommand that calls \<open>summarizeText\<close> returns when that call does.
\<close>

definition wrapOutcome :: "label \<Rightarrow> outcome \<Rightarrow> outcome" where
  "wrapOutcome l r =
     (case r of
        Returned (Some err) \<Rightarrow> Returned (Some (Wrapped l err))
      | Returned None \<Rightarrow> Returned None
      | NotReturned \<Rightarrow> NotReturned)"

text \<open>\<open>transcribe\<close> (main.go, lines 292 to 309).\<close>

definition transcribeExec :: "env \<Rightarrow> string \<Rightarrow> string \<Rightarrow> string \<Rightarrow> outcome \<times> event list" where
  "transcribeExec env model audioPath outputPath =
     (if audioPath = [] then (Returned (Some MissingAudio), [])
      else
        (case transcribeAudio env model audioPath
                (transcribeOutputPath (windows env) audioPath outputPath) of
           (Some err, tr) \<Rightarrow> (Returned (Some (Wrapped TranscribeFailed err)), tr)
         | (None, tr) \<Rightarrow> (Returned None, tr)))"

text \<open>\<open>summarize\<close> (main.go, lines 330 to 351).\<close>

definition summarizeExec ::
  "env \<Rightarrow> action list \<Rightarrow> string \<Rightarrow> string \<Rightarrow> string \<Rightarrow> float64 \<Rightarrow> outcome \<times> event list" where
  "summarizeExec env sched model inputPath outputPath summaryRatio =
     (if inputPath = [] then (Returned (Some MissingInput), [])
      else if flt summaryRatio ratioMin \<or> fgt summaryRatio ratioMax
      then (Returned (Some RatioOutOfRange), [])
      else
        (case summarizeText env sched model inputPath
                (summarizeOutputPath (windows env) inputPath outputPath) summaryRatio of
           (r, tr) \<Rightarrow> (wrapOutcome SummarizeFailed r, tr)))"

text \<open>
  \<open>generate\<close> (main.go, lines 85 to 125). The deferred \<open>os.RemoveAll\<close> runs when the
  function returns after the temporary directory was made.
\<close>

definition generateExec ::
  "env \<Rightarrow> action list \<Rightarrow> string \<Rightarrow> string \<Rightarrow> string \<Rightarrow> float64 \<Rightarrow> outcome \<times> event list" where
  "generateExec env sched model videoPath outputPath summaryRatio =
     (if videoPath = [] then (Returned (Some MissingVideo), [])
      else
        (case mkdirTemp env of
           Inl err \<Rightarrow> (Returned (Some (Wrapped MkdirTempFailed (External err))), [EvMkdirTemp])
         | Inr tmpDir \<Rightarrow>
             (let audioPath = filepathJoin env tmpDir ''audio.mp3'';
                  transcriptPath = filepathJoin env tmpDir ''transcript.txt''
              in case extractAudio env videoPath audioPath of
                   (Some err, tr1) \<Rightarrow>
                     (Returned (Some (Wrapped ExtractFailed err)),
                      EvMkdirTemp # tr1 @ [EvRemoveAll tmpDir])
                 | (None, tr1) \<Rightarrow>
                     (case transcribeAudio env model audioPath transcriptPath of
                        (Some err, tr2) \<Rightarrow>
                          (Returned (Some (Wrapped TranscribeFailed err)),
                           EvMkdirTemp # tr1 @ tr2 @ [EvRemoveAll tmpDir])
                      | (None, tr2) \<Rightarrow>
                          (case summarizeText env sched model transcriptPath
                                  (generateOutputPath (windows env) videoPath outputPath)
                                  summaryRatio of
                             (NotReturned, tr3) \<Rightarrow>
                               (NotReturned, EvMkdirTemp # tr1 @ tr2 @ tr3)
                           | (r, tr3) \<Rightarrow>
                               (wrapOutcome SummarizeFailed r,
                                EvMkdirTemp # tr1 @ tr2 @ tr3 @ [EvRemoveAll tmpDir]))))))"

text \<open>An environment for the examples: every call succeeds, but for reading the
  transcript and the chat requests, which are given.\<close>

definition sampleEnv ::
  "(string \<Rightarrow> string + string) \<Rightarrow> (nat \<Rightarrow> request \<Rightarrow> string + string list) \<Rightarrow> env" where
  "sampleEnv rd ch =
     \<lparr>windows = False, mkdirTemp = Inr ''/tmp/video-note-1'',
      filepathJoin = (\<lambda>dir name. dir @ ''/'' @ name),
      ffmpeg = (\<lambda>_. None), openFile = (\<lambda>_. None),
      createTranscription = (\<lambda>_ _. Inr ''text''),
      createFile = (\<lambda>_. None), writeString = (\<lambda>_ _. None),
      readFile = rd, chat = ch, writeFile = (\<lambda>_ _. None)\<rparr>"

text \<open>
  A transcript of one word of 3000 bytes, which \<open>summarizeText\<close> cuts into two chunks,
  and three environments for it: in one the request for the second chunk fails, in one
  both requests are answered, in one the second request fails and the first is answered
  by a response without choices.
\<close>

definition oneWord :: string where
  "oneWord = replicate 3000 (CHR ''x'')"

definition failingEnv :: env where
  "failingEnv =
     sampleEnv (\<lambda>_. Inr oneWord) (\<lambda>i _. if i = 0 then Inr [''s''] else Inl ''boom'')"

definition answeringEnv :: env where
  "answeringEnv =
     sampleEnv (\<lambda>_. Inr oneWord) (\<lambda>i _. if i = 0 then Inr [''first''] else Inr [''second''])"


section \<open>Properties of the chunker\<close>

lemma fieldsFrom_no_empty: "w \<in> set (fieldsFrom k cur s) \<Longrightarrow> w \<noteq> []"
  by (induction s arbitrary: k cur) (auto simp del: spaceWidth.simps split: if_splits)

lemma Fields_no_empty: "w \<in> set (Fields s) \<Longrightarrow> w \<noteq> []"
  unfolding Fields_def by (rule fieldsFrom_no_empty)

lemma fieldsFrom_ascii_space:
  "\<forall>c\<in>set s. asciiSpace c \<Longrightarrow> fieldsFrom 0 [] s = []"
  by (induction s) simp_all

lemma chunkLoop_acc:
  "chunkLoop n (acc @ chunks) cur ws =
     (acc @ fst (chunkLoop n chunks cur ws), snd (chunkLoop n chunks cur ws))"
  by (induction ws arbitrary: chunks cur) auto

lemma chunkLoop_cur:
  "\<forall>w\<in>set ws. w \<noteq> [] \<Longrightarrow> cur \<noteq> [] \<or> ws \<noteq> [] \<Longrightarrow> snd (chunkLoop n chunks cur ws) \<noteq> []"
  by (induction ws arbitrary: chunks cur) auto

lemma chunkLoop_chunks_nonempty:
  assumes "\<forall>w\<in>set ws. w \<noteq> []" and "cur \<noteq> []" and "\<forall>c\<in>set chunks. c \<noteq> []"
  shows "\<forall>c\<in>set (fst (chunkLoop n chunks cur ws)). c \<noteq> []"
  using assms
proof (induction ws arbitrary: chunks cur)
  case Nil
  then show ?case by simp
next
  case (Cons w ws)
  have ws: "\<forall>w\<in>set ws. w \<noteq> []" and w: "w \<noteq> []" using Cons.prems(1) by simp_all
  show ?case
  proof (cases "int (length cur) + int (length w) + 1 > n")
    case True
    have "\<forall>c\<in>set (chunks @ [cur]). c \<noteq> []" using Cons.prems(2,3) by simp
    from Cons.IH[OF ws w this] True show ?thesis by simp
  next
    case False
    have "cur @ '' '' @ w \<noteq> []" by simp
    from Cons.IH[OF ws this Cons.prems(3)] False Cons.prems(2) show ?thesis by simp
  qed
qed

lemma splitWords_alt:
  "splitWords ws n =
     (if snd (chunkLoop n [] [] ws) \<noteq> []
      then fst (chunkLoop n [] [] ws) @ [snd (chunkLoop n [] [] ws)]
      else fst (chunkLoop n [] [] ws))"
  by (simp add: splitWords_def split: prod.splits)

lemma glue_assoc: "glue (glue a b) c = glue a (glue b c)"
  by (simp add: glue_def)

lemma glue_Nil: "glue [] b = b" "glue a [] = a"
  by (simp_all add: glue_def)

lemma glueAll_append: "glueAll (xs @ ys) = glue (glueAll xs) (glueAll ys)"
  by (induction xs) (simp_all add: glue_assoc glue_Nil)

lemma Join_eq_Nil: "\<forall>x\<in>set xs. x \<noteq> [] \<Longrightarrow> Join xs sep = [] \<longleftrightarrow> xs = []"
  by (induction xs sep rule: Join.induct) auto

lemma glueAll_Join:
  "\<forall>x\<in>set xs. x \<noteq> [] \<Longrightarrow> glueAll xs = Join xs '' ''"
proof (induction xs)
  case Nil
  then show ?case by simp
next
  case (Cons x xs)
  show ?case
  proof (cases xs)
    case Nil
    then show ?thesis by (simp add: glue_Nil)
  next
    case (Cons y ys)
    have "glueAll xs = Join xs '' ''" using Cons.IH Cons.prems by simp
    moreover have "Join xs '' '' \<noteq> []"
      using Join_eq_Nil[of xs "'' ''"] Cons.prems Cons by simp
    moreover have "x \<noteq> []" using Cons.prems by simp
    ultimately show ?thesis using Cons by (simp add: glue_def)
  qed
qed

lemma glueAll_filter: "glueAll (filter (\<lambda>c. c \<noteq> []) xs) = glueAll xs"
  by (induction xs) (simp_all add: glue_Nil)

lemma chunkLoop_glue:
  "\<forall>w\<in>set ws. w \<noteq> [] \<Longrightarrow>
   glue (glueAll (fst (chunkLoop n chunks cur ws))) (snd (chunkLoop n chunks cur ws)) =
   glue (glue (glueAll chunks) cur) (glueAll ws)"
proof (induction ws arbitrary: chunks cur)
  case Nil
  then show ?case by (simp add: glue_Nil)
next
  case (Cons w ws)
  have IH: "\<And>chunks cur. glue (glueAll (fst (chunkLoop n chunks cur ws))) (snd (chunkLoop n chunks cur ws)) =
   glue (glue (glueAll chunks) cur) (glueAll ws)" using Cons by simp
  have w: "w \<noteq> []" using Cons.prems by simp
  show ?case
  proof (cases "int (length cur) + int (length w) + 1 > n")
    case True
    then have "chunkLoop n chunks cur (w # ws) = chunkLoop n (chunks @ [cur]) w ws" by simp
    then show ?thesis
      by (simp only: IH glueAll_append glueAll.simps glue_assoc glue_Nil)
  next
    case False
    show ?thesis
    proof (cases "cur = []")
      case True
      with False have "chunkLoop n chunks cur (w # ws) = chunkLoop n chunks w ws" by simp
      then show ?thesis using True
        by (simp only: IH glueAll.simps glue_assoc glue_Nil)
    next
      case nonempty: False
      with False have "chunkLoop n chunks cur (w # ws) = chunkLoop n chunks (cur @ '' '' @ w) ws" by simp
      moreover have "cur @ '' '' @ w = glue cur w" using nonempty w by (simp add: glue_def)
      ultimately show ?thesis
        by (simp only: IH glueAll.simps glue_assoc glue_Nil)
    qed
  qed
qed

lemma glueAll_splitWords:
  assumes "\<forall>w\<in>set ws. w \<noteq> []"
  shows "glueAll (splitWords ws n) = glueAll ws"
proof -
  obtain chunks cur where r: "chunkLoop n [] [] ws = (chunks, cur)" by (cases "chunkLoop n [] [] ws")
  have "glue (glueAll chunks) cur = glueAll ws"
    using chunkLoop_glue[OF assms, of n "[]" "[]"] r by (simp add: glue_Nil)
  moreover have "glueAll (splitWords ws n) = glue (glueAll chunks) cur"
    using r by (simp add: splitWords_alt glueAll_append glue_Nil)
  ultimately show ?thesis by simp
qed

lemma Join_nonempty_chunks:
  "Join (filter (\<lambda>c. c \<noteq> []) (splitTextIntoChunks text n)) '' '' = Join (Fields text) '' ''"
proof -
  have ws: "\<forall>w\<in>set (Fields text). w \<noteq> []" using Fields_no_empty by blast
  have "Join (filter (\<lambda>c. c \<noteq> []) (splitTextIntoChunks text n)) '' '' =
        glueAll (filter (\<lambda>c. c \<noteq> []) (splitTextIntoChunks text n))"
    by (rule glueAll_Join[symmetric]) simp
  also have "\<dots> = glueAll (splitTextIntoChunks text n)" by (rule glueAll_filter)
  also have "\<dots> = glueAll (Fields text)"
    unfolding splitTextIntoChunks_def by (rule glueAll_splitWords[OF ws])
  also have "\<dots> = Join (Fields text) '' ''" by (rule glueAll_Join[OF ws])
  finally show ?thesis .
qed

lemma chunkLoop_budget:
  assumes "set ws \<subseteq> W"
    and "\<forall>c\<in>set chunks. int (length c) \<le> n \<or> c \<in> W"
    and "int (length cur) \<le> n \<or> cur \<in> W"
  shows "(\<forall>c\<in>set (fst (chunkLoop n chunks cur ws)). int (length c) \<le> n \<or> c \<in> W) \<and>
         (int (length (snd (chunkLoop n chunks cur ws))) \<le> n \<or> snd (chunkLoop n chunks cur ws) \<in> W)"
  using assms
proof (induction ws arbitrary: chunks cur)
  case Nil
  then show ?case by simp
next
  case (Cons w ws)
  have sub: "set ws \<subseteq> W" and w: "w \<in> W" using Cons.prems(1) by auto
  show ?case
  proof (cases "int (length cur) + int (length w) + 1 > n")
    case True
    have "\<forall>c\<in>set (chunks @ [cur]). int (length c) \<le> n \<or> c \<in> W"
      using Cons.prems(2,3) by auto
    from Cons.IH[OF sub this, of w] w True show ?thesis by simp
  next
    case False
    show ?thesis
    proof (cases "cur = []")
      case True
      from Cons.IH[OF sub Cons.prems(2), of w] w False True show ?thesis by simp
    next
      case nonempty: False
      have "int (length (cur @ '' '' @ w)) \<le> n" using False by simp
      then have "int (length (cur @ '' '' @ w)) \<le> n \<or> cur @ '' '' @ w \<in> W" ..
      from Cons.IH[OF sub Cons.prems(2) this] False nonempty show ?thesis by simp
    qed
  qed
qed

lemma splitWords_budget:
  assumes "0 \<le> n" and "c \<in> set (splitWords ws n)"
  shows "int (length c) \<le> n \<or> (c \<in> set ws \<and> int (length c) > n)"
proof -
  have "(\<forall>c\<in>set (fst (chunkLoop n [] [] ws)). int (length c) \<le> n \<or> c \<in> set ws) \<and>
         (int (length (snd (chunkLoop n [] [] ws))) \<le> n \<or> snd (chunkLoop n [] [] ws) \<in> set ws)"
    by (rule chunkLoop_budget) (use assms(1) in simp_all)
  then have "int (length c) \<le> n \<or> c \<in> set ws"
    using assms(2) by (auto simp: splitWords_alt split: if_splits)
  then show ?thesis by linarith
qed

lemma splitTextIntoChunks_budget:
  "0 \<le> n \<Longrightarrow> c \<in> set (splitTextIntoChunks text n) \<Longrightarrow>
   int (length c) \<le> n \<or> (c \<in> set (Fields text) \<and> int (length c) > n)"
  unfolding splitTextIntoChunks_def by (rule splitWords_budget)

lemma splitWords_first_overflow:
  assumes "\<forall>x\<in>set (w # ws). x \<noteq> []" and "int (length w) + 1 > n"
  shows "splitWords (w # ws) n = [] # fst (chunkLoop n [] w ws) @ [snd (chunkLoop n [] w ws)]"
proof -
  have "chunkLoop n [] [] (w # ws) = chunkLoop n ([[]] @ []) w ws" using assms(2) by simp
  also have "\<dots> = ([[]] @ fst (chunkLoop n [] w ws), snd (chunkLoop n [] w ws))"
    by (rule chunkLoop_acc)
  finally have r: "chunkLoop n [] [] (w # ws) = ([] # fst (chunkLoop n [] w ws), snd (chunkLoop n [] w ws))"
    by simp
  have "snd (chunkLoop n [] w ws) \<noteq> []"
    by (rule chunkLoop_cur) (use assms(1) in simp_all)
  then show ?thesis unfolding splitWords_alt r by simp
qed

lemma splitWords_first_fits:
  assumes "\<forall>x\<in>set (w # ws). x \<noteq> []" and "int (length w) + 1 \<le> n" and "c \<in> set (splitWords (w # ws) n)"
  shows "c \<noteq> []"
proof -
  have r: "chunkLoop n [] [] (w # ws) = chunkLoop n [] w ws" using assms(2) by simp
  have "\<forall>c\<in>set (fst (chunkLoop n [] w ws)). c \<noteq> []"
    by (rule chunkLoop_chunks_nonempty) (use assms(1) in simp_all)
  then show ?thesis using assms(3) assms(1) unfolding splitWords_alt r
    by (auto split: if_splits)
qed


text \<open>
  The chunks joined with single spaces are the words joined with single spaces when the
  first word and a space fit the chunk size; they are that with one space before it
  when they do not.
\<close>

lemma Join_chunks_first_word_fits:
  assumes "Fields input = w # ws" and "int (length w) + 1 \<le> n"
  shows "Join (splitTextIntoChunks input n) '' '' = Join (Fields input) '' ''"
proof -
  have ne: "\<forall>x\<in>set (w # ws). x \<noteq> []"
    using Fields_no_empty[of _ input] assms(1) by metis
  have "\<forall>c\<in>set (splitTextIntoChunks input n). c \<noteq> []"
    using splitWords_first_fits[OF ne assms(2)] assms(1) by (simp add: splitTextIntoChunks_def)
  then have "filter (\<lambda>c. c \<noteq> []) (splitTextIntoChunks input n) = splitTextIntoChunks input n"
    by (simp add: filter_id_conv)
  then show ?thesis using Join_nonempty_chunks[of input n] by simp
qed

lemma Join_chunks_first_word_overflows:
  assumes "Fields input = w # ws" and "int (length w) + 1 > n"
  shows "Join (splitTextIntoChunks input n) '' '' = '' '' @ Join (Fields input) '' ''"
proof -
  have ne: "\<forall>x\<in>set (w # ws). x \<noteq> []"
    using Fields_no_empty[of _ input] assms(1) by metis
  define rest where "rest = fst (chunkLoop n [] w ws) @ [snd (chunkLoop n [] w ws)]"
  have s: "splitTextIntoChunks input n = [] # rest"
    unfolding rest_def splitTextIntoChunks_def assms(1)
    by (rule splitWords_first_overflow[OF ne assms(2)])
  have "\<forall>c\<in>set (fst (chunkLoop n [] w ws)). c \<noteq> []"
    by (rule chunkLoop_chunks_nonempty) (use ne in simp_all)
  moreover have "snd (chunkLoop n [] w ws) \<noteq> []"
    by (rule chunkLoop_cur) (use ne in simp_all)
  ultimately have all: "\<forall>c\<in>set rest. c \<noteq> []" by (simp add: rest_def)
  then have f: "filter (\<lambda>c. c \<noteq> []) ([] # rest) = rest" by (simp add: filter_id_conv)
  have r: "rest \<noteq> []" by (simp add: rest_def)
  then obtain y ys where "rest = y # ys" by (cases rest) auto
  then have "Join ([] # rest) '' '' = '' '' @ Join rest '' ''" by simp
  moreover have "Join rest '' '' = Join (Fields input) '' ''"
    using Join_nonempty_chunks[of input n] by (simp only: s f)
  ultimately show ?thesis by (simp add: s)
qed

lemma Fields_ascii_space: "\<forall>c\<in>set input. asciiSpace c \<Longrightarrow> Fields input = []"
  unfolding Fields_def by (rule fieldsFrom_ascii_space)

lemma fieldsFrom_replicate:
  "spaceWidth [c] = 0 \<Longrightarrow> c \<notin> {CHR 0xC2, CHR 0xE1, CHR 0xE2, CHR 0xE3} \<Longrightarrow>
   fieldsFrom 0 cur (replicate n c) = (if cur = [] \<and> n = 0 then [] else [cur @ replicate n c])"
  by (induction n arbitrary: cur) (auto simp: replicate_app_Cons_same split: if_splits)

text \<open>
  The call of line 193 on a transcript that is one word of 3000 bytes (a transcript
  without white space, as a Chinese one is): the first chunk is empty.
\<close>

lemma one_long_word:
  "splitTextIntoChunks (replicate 3000 (CHR ''x'')) 3000 = [[], replicate 3000 (CHR ''x'')]"
  by (simp add: splitTextIntoChunks_def splitWords_def Fields_def fieldsFrom_replicate asciiSpace_def)

section \<open>Claims about the chunker\<close>

text \<open>
  C1, as the specification states it: \<open>splitTextIntoChunks\<close> on \<open>"a b c d"\<close> with chunk
  size 3 returns the four words as four chunks. It does not: \<open>"a"\<close> and \<open>"b"\<close> fit one
  chunk, since 1 + 1 + 1 is not greater than 3.
\<close>

theorem abcd_not_one_word_each:
  "splitTextIntoChunks ''a b c d'' 3 \<noteq> [''a'', ''b'', ''c'', ''d'']"
  by (simp add: splitTextIntoChunks_def splitWords_def Fields_def asciiSpace_def)

text \<open>
  C1, amended: \<open>splitTextIntoChunks\<close> on \<open>"a b c d"\<close> with chunk size 3 returns exactly the
  two chunks \<open>"a b"\<close> and \<open>"c d"\<close>.
\<close>

theorem abcd_two_chunks:
  "splitTextIntoChunks ''a b c d'' 3 = [''a b'', ''c d'']"
  by (simp add: splitTextIntoChunks_def splitWords_def Fields_def asciiSpace_def)

text \<open>
  C2: joining the chunks with single spaces gives back the words of the text joined with
  single spaces. At the one-word text \<open>"xxxxx"\<close> with chunk size 3 the function returns
  an empty chunk before the word, and the joined chunks start with a space that the
  joined words do not have. (\<open>Join_chunks_first_word_fits\<close> and
  \<open>Join_chunks_first_word_overflows\<close> say when the property holds and when it does not.)
\<close>

theorem long_first_word_join:
  "Join (splitTextIntoChunks ''xxxxx'' 3) '' '' = '' xxxxx'' \<and>
   Join (Fields ''xxxxx'') '' '' = ''xxxxx''"
  by (simp add: splitTextIntoChunks_def splitWords_def Fields_def asciiSpace_def)

text \<open>
  C3, as the specification states it, for every chunk size: every chunk is at most as
  long as the chunk size, unless it is a single word longer than the chunk size. The
  chunk size is an \<open>int\<close>; at the text \<open>"a"\<close> with chunk size -1 the function returns the
  empty chunk first, which is longer than -1 and is not a word of the text.
\<close>

theorem negative_budget_empty_chunk:
  "splitTextIntoChunks ''a'' (- 1) = [[], ''a''] \<and>
   \<not> int (length ([] :: string)) \<le> - 1 \<and>
   ([] :: string) \<notin> set (Fields ''a'')"
  by (simp add: splitTextIntoChunks_def splitWords_def Fields_def asciiSpace_def)

text \<open>
  C3, amended: for every chunk size that is not negative (the only call of the program
  passes 3000), every chunk is at most as long as the chunk size, unless it is a single
  word of the text longer than the chunk size.
\<close>

theorem chunks_within_nonnegative_budget:
  "0 \<le> chunkSize \<longrightarrow>
     (\<forall>c\<in>set (splitTextIntoChunks input chunkSize).
        int (length c) \<le> chunkSize \<or>
        (c \<in> set (Fields input) \<and> chunkSize < int (length c)))"
  using splitWords_budget[of chunkSize _ "Fields input"]
  by (auto simp: splitTextIntoChunks_def)

text \<open>
  C3 at the text \<open>"ab cdefgh ij"\<close> with chunk size 3: the second chunk is a single word
  of six bytes.
\<close>

theorem chunks_within_nonnegative_budget_witness:
  "(0 :: int) \<le> 3 \<and>
   splitTextIntoChunks ''ab cdefgh ij'' 3 = [''ab'', ''cdefgh'', ''ij''] \<and>
   Fields ''ab cdefgh ij'' = [''ab'', ''cdefgh'', ''ij''] \<and>
   list_all (\<lambda>c. int (length c) \<le> 3 \<or>
                  (c \<in> set (Fields ''ab cdefgh ij'') \<and> 3 < int (length c)))
     (splitTextIntoChunks ''ab cdefgh ij'' 3)"
proof -
  have e: "splitTextIntoChunks ''ab cdefgh ij'' 3 = [''ab'', ''cdefgh'', ''ij'']"
    and f: "Fields ''ab cdefgh ij'' = [''ab'', ''cdefgh'', ''ij'']"
    by (simp_all add: splitTextIntoChunks_def splitWords_def Fields_def asciiSpace_def)
  from chunks_within_nonnegative_budget[where chunkSize = 3 and input = "''ab cdefgh ij''"]
  have "list_all (\<lambda>c. int (length c) \<le> 3 \<or>
                  (c \<in> set (Fields ''ab cdefgh ij'') \<and> 3 < int (length c)))
     (splitTextIntoChunks ''ab cdefgh ij'' 3)"
    by (simp add: list_all_iff)
  with e f show ?thesis by simp
qed

text \<open>
  C4: for every chunk size, the empty string, and every string without words (in
  particular one of ASCII white space only), gives no chunks.
\<close>

theorem no_words_no_chunks:
  "splitTextIntoChunks [] chunkSize = [] \<and>
   (Fields input = [] \<longrightarrow> splitTextIntoChunks input chunkSize = []) \<and>
   ((\<forall>c\<in>set input. asciiSpace c) \<longrightarrow> splitTextIntoChunks input chunkSize = [])"
  by (simp add: splitTextIntoChunks_def splitWords_def Fields_def fieldsFrom_ascii_space)

text \<open>C4 at a string of a space, a tab and a line feed.\<close>

theorem no_words_no_chunks_witness:
  "Fields [CHR 0x20, CHR 0x09, CHR 0x0A] = [] \<and>
   list_all asciiSpace [CHR 0x20, CHR 0x09, CHR 0x0A] \<and>
   splitTextIntoChunks [CHR 0x20, CHR 0x09, CHR 0x0A] 3000 = []"
proof -
  have f: "Fields [CHR 0x20, CHR 0x09, CHR 0x0A] = []"
    by (simp add: Fields_def asciiSpace_def)
  have a: "list_all asciiSpace [CHR 0x20, CHR 0x09, CHR 0x0A]"
    by (simp add: asciiSpace_def)
  from no_words_no_chunks[where chunkSize = 3000 and input = "[CHR 0x20, CHR 0x09, CHR 0x0A]"] f a
  show ?thesis by blast
qed

text \<open>
  C9: when the current chunk is empty and the length of the next word plus one exceeds
  the chunk size, the loop appends the empty chunk; so when the first word of the text
  is that long, the result starts with the empty string, as for \<open>"xxxxx"\<close> with chunk
  size 3, which gives \<open>["", "xxxxx"]\<close>.
\<close>

theorem empty_chunk_before_long_first_word:
  "(int (length word) + 1 > chunkSize \<longrightarrow>
      chunkLoop chunkSize chunks [] (word # words) =
      chunkLoop chunkSize (chunks @ [[]]) word words) \<and>
   (Fields input = word # words \<and> int (length word) + 1 > chunkSize \<longrightarrow>
      splitTextIntoChunks input chunkSize =
      [] # fst (chunkLoop chunkSize [] word words) @ [snd (chunkLoop chunkSize [] word words)]) \<and>
   splitTextIntoChunks ''xxxxx'' 3 = [[], ''xxxxx'']"
proof (intro conjI impI)
  assume "int (length word) + 1 > chunkSize"
  then show "chunkLoop chunkSize chunks [] (word # words) =
      chunkLoop chunkSize (chunks @ [[]]) word words" by simp
next
  assume a: "Fields input = word # words \<and> int (length word) + 1 > chunkSize"
  then have "\<forall>x\<in>set (word # words). x \<noteq> []"
    using Fields_no_empty[of _ input] by metis
  then show "splitTextIntoChunks input chunkSize =
      [] # fst (chunkLoop chunkSize [] word words) @ [snd (chunkLoop chunkSize [] word words)]"
    using a by (simp only: splitTextIntoChunks_def splitWords_first_overflow)
next
  show "splitTextIntoChunks ''xxxxx'' 3 = [[], ''xxxxx'']"
    by (simp add: splitTextIntoChunks_def splitWords_def Fields_def asciiSpace_def)
qed

text \<open>C9 at the text \<open>"xxxxx"\<close> with chunk size 3.\<close>

theorem empty_chunk_before_long_first_word_witness:
  "int (length ''xxxxx'') + 1 > 3 \<and> Fields ''xxxxx'' = ''xxxxx'' # [] \<and>
   chunkLoop 3 [] [] (''xxxxx'' # []) = chunkLoop 3 ([] @ [[]]) ''xxxxx'' [] \<and>
   splitTextIntoChunks ''xxxxx'' 3 =
      [] # fst (chunkLoop 3 [] ''xxxxx'' []) @ [snd (chunkLoop 3 [] ''xxxxx'' [])] \<and>
   [] # fst (chunkLoop 3 [] ''xxxxx'' []) @ [snd (chunkLoop 3 [] ''xxxxx'' [])] = [[], ''xxxxx'']"
proof -
  have l: "int (length ''xxxxx'') + 1 > 3" by simp
  have f: "Fields ''xxxxx'' = ''xxxxx'' # []" by (simp add: Fields_def asciiSpace_def)
  have e: "[] # fst (chunkLoop 3 [] ''xxxxx'' []) @ [snd (chunkLoop 3 [] ''xxxxx'' [])] = [[], ''xxxxx'']"
    by simp
  from empty_chunk_before_long_first_word[where word = "''xxxxx''" and chunkSize = 3
      and chunks = "[]" and words = "[]" and input = "''xxxxx''"] l f e
  show ?thesis by blast
qed

section \<open>Properties of the runs of the summarizer\<close>

lemma consistent_start: "consistent env reqs out start"
  by (simp add: consistent_def start_def sentErrors_def)

lemma sentErrors_append:
  "sentErrors env reqs (xs @ ys) = sentErrors env reqs xs @ sentErrors env reqs ys"
  by (simp add: sentErrors_def)

lemma collected_append:
  "collected env reqs (xs @ ys) = collected env reqs xs @ collected env reqs ys"
  by (simp add: collected_def)

lemma isWrite_simps [simp]:
  "isWrite (EvRequest i r) = False" "isWrite (EvWriteFile p c) = True"
  by (simp_all add: isWrite_def)

lemma consistent_Finish:
  assumes "consistent env reqs out s" and "step env reqs out (Finish i) s = Some s'"
  shows "consistent env reqs out s'"
proof -
  from assms(2) have i: "i < length reqs" "i \<notin> set (finished s)" and s': "s' = finishTask env reqs i s"
    by (auto split: if_splits)
  have notClosed: "\<not> chanClosed s"
  proof
    assume "chanClosed s"
    with assms(1) have "length (finished s) = length reqs" by (simp add: consistent_def)
    moreover have "card (set (finished s)) = length (finished s)"
      using assms(1) by (simp add: consistent_def distinct_card)
    moreover have "set (finished s) \<subseteq> {..<length reqs}" using assms(1) by (simp add: consistent_def)
    ultimately have "set (finished s) = {..<length reqs}"
      by (metis card_lessThan card_subset_eq finite_lessThan)
    with i show False by auto
  qed
  show ?thesis
  proof (cases "chat env i (reqs ! i)")
    case (Inl err)
    then have s'': "s' = s\<lparr>finished := finished s @ [i],
            errChan := errChan s @ [Wrapped (PartFailed (i + 1)) (External err)],
            effects := effects s @ [EvRequest i (reqs ! i)]\<rparr>"
      using s' by (simp add: finishTask_def)
    have se: "sentErrors env reqs [i] = [Wrapped (PartFailed (i + 1)) (External err)]"
      using Inl by (simp add: sentErrors_def)
    show ?thesis
      using assms(1) i notClosed unfolding s'' consistent_def
      by (cases "caller s")
         (auto simp: sentErrors_append se requestsOk_def)
  next
    case (Inr choices)
    show ?thesis
    proof (cases choices)
      case Nil
      then have s'': "s' = s\<lparr>effects := effects s @ [EvRequest i (reqs ! i)], panicked := True\<rparr>"
        using s' Inr by (simp add: finishTask_def)
      show ?thesis
        using assms(1) i unfolding s'' consistent_def
        by (cases "caller s") (auto simp: requestsOk_def)
    next
      case (Cons content more)
      then have s'': "s' = s\<lparr>finished := finished s @ [i],
            summaries := summaries s @ [content],
            effects := effects s @ [EvRequest i (reqs ! i)]\<rparr>"
        using s' Inr by (simp add: finishTask_def)
      have se: "sentErrors env reqs [i] = []"
        using Inr Cons by (simp add: sentErrors_def)
      show ?thesis
        using assms(1) i notClosed unfolding s'' consistent_def
        by (cases "caller s")
           (auto simp: sentErrors_append se requestsOk_def)
    qed
  qed
qed

lemma consistent_CloseChan:
  assumes "consistent env reqs out s" and "step env reqs out CloseChan s = Some s'"
  shows "consistent env reqs out s'"
proof -
  from assms(2) have c: "\<not> chanClosed s" "\<not> length (finished s) < length reqs" and s': "s' = s\<lparr>chanClosed := True\<rparr>"
    by (auto split: if_splits)
  have "length (finished s) \<le> length reqs"
  proof -
    have "card (set (finished s)) \<le> card {..<length reqs}"
      using assms(1) by (intro card_mono) (simp_all add: consistent_def)
    then show ?thesis using assms(1) by (simp add: consistent_def distinct_card)
  qed
  with c have "length (finished s) = length reqs" by simp
  then show ?thesis
    using assms(1) c unfolding s' consistent_def
    by (cases "caller s") auto
qed

lemma consistent_Receive:
  assumes "consistent env reqs out s" and "step env reqs out Receive s = Some s'"
  shows "consistent env reqs out s'"
proof -
  from assms(2) have nr: "caller s = NotReturned" by (auto split: if_splits)
  with assms(1) have ch: "errChan s = sentErrors env reqs (finished s)" and nw: "filter isWrite (effects s) = []"
    by (simp_all add: consistent_def)
  show ?thesis
  proof (cases "errChan s")
    case Nil
    with assms(2) nr have cl: "chanClosed s" and s': "s' = writeSummary env out s"
      by (auto split: if_splits)
    show ?thesis
      using assms(1) nr ch nw Nil cl unfolding s' consistent_def writeSummary_def
      by (simp add: Let_def requestsOk_def)
  next
    case (Cons err errs)
    with assms(2) nr have s': "s' = s\<lparr>errChan := errs, caller := Returned (Some err)\<rparr>"
      by (auto split: if_splits)
    have se: "sentErrors env reqs (finished s) = err # errs" using ch Cons by simp
    show ?thesis
      using assms(1) nr nw unfolding s' consistent_def
      by (auto simp: se)
  qed
qed

lemma consistent_summaries:
  assumes "consistent env reqs out s" and "\<not> chanClosed s"
  shows "consistent env reqs out (s\<lparr>summaries := xs\<rparr>)"
  using assms unfolding consistent_def by (cases "caller s") auto

lemma finishTask_chanClosed: "chanClosed (finishTask env reqs i s) = chanClosed s"
  by (simp add: finishTask_def split: sum.splits list.splits)

lemma consistent_FinishRaced:
  assumes "consistent env reqs out s" and "step env reqs out (FinishRaced i xs) s = Some s'"
  shows "consistent env reqs out s'"
proof -
  from assms(2) have i: "i < length reqs" "i \<notin> set (finished s)" "\<not> panicked s"
    and s': "s' = finishRaced env reqs i xs s"
    by (auto split: if_splits)
  have f: "step env reqs out (Finish i) s = Some (finishTask env reqs i s)"
    using i by simp
  have c: "consistent env reqs out (finishTask env reqs i s)"
    by (rule consistent_Finish[OF assms(1) f])
  have "\<not> chanClosed s"
  proof
    assume "chanClosed s"
    with assms(1) have "length (finished s) = length reqs" by (simp add: consistent_def)
    moreover have "card (set (finished s)) = length (finished s)"
      using assms(1) by (simp add: consistent_def distinct_card)
    moreover have "set (finished s) \<subseteq> {..<length reqs}" using assms(1) by (simp add: consistent_def)
    ultimately have "set (finished s) = {..<length reqs}"
      by (metis card_lessThan card_subset_eq finite_lessThan)
    with i show False by auto
  qed
  then have n: "\<not> chanClosed (finishTask env reqs i s)" by (simp add: finishTask_chanClosed)
  show ?thesis
    unfolding s' finishRaced_def using c consistent_summaries[OF c n]
    by (simp split: sum.splits list.splits)
qed

lemma consistent_step:
  "consistent env reqs out s \<Longrightarrow> step env reqs out a s = Some s' \<Longrightarrow> consistent env reqs out s'"
  by (cases a)
     (blast intro: consistent_Finish consistent_FinishRaced consistent_CloseChan consistent_Receive)+

lemma consistent_run:
  "consistent env reqs out s \<Longrightarrow> consistent env reqs out (run env reqs out sched s)"
  by (induction sched arbitrary: s) (auto split: option.splits intro: consistent_step)


lemma consistent_summarizeRun:
  "consistent env (requests model transcript ratio) out
     (summarizeRun env sched model transcript out ratio)"
  unfolding summarizeRun_def by (rule consistent_run) (rule consistent_start)


lemma unfinished_task:
  assumes "consistent env reqs out s" and "length (finished s) < length reqs"
  shows "\<exists>i. i < length reqs \<and> i \<notin> set (finished s)"
proof (rule ccontr)
  assume "\<not> ?thesis"
  then have "{..<length reqs} \<subseteq> set (finished s)" by auto
  then have "card {..<length reqs} \<le> card (set (finished s))" by (intro card_mono) simp_all
  also have "\<dots> \<le> length (finished s)" by (rule card_length)
  finally show False using assms(2) by simp
qed

lemma step_enabled:
  assumes "consistent env reqs out s" and "\<not> panicked s" and "caller s = NotReturned"
  shows "\<exists>a s'. step env reqs out a s = Some s'"
proof (cases "length (finished s) < length reqs")
  case True
  then obtain i where "i < length reqs" "i \<notin> set (finished s)"
    using unfinished_task[OF assms(1)] by blast
  then have "step env reqs out (Finish i) s = Some (finishTask env reqs i s)"
    using assms(2) by simp
  then show ?thesis by blast
next
  case False
  show ?thesis
  proof (cases "chanClosed s")
    case notClosed: False
    then have "step env reqs out CloseChan s = Some (s\<lparr>chanClosed := True\<rparr>)"
      using False assms(2) by simp
    then show ?thesis by blast
  next
    case True
    then have "\<exists>s'. step env reqs out Receive s = Some s'"
      using assms(2,3) by (cases "errChan s") simp_all
    then show ?thesis by blast
  qed
qed



text \<open>
  Completing a run: after a panic nothing moves; without responses that lack choices
  nothing panics, and once every goroutine, the closer and the caller have had a turn,
  the caller has returned; so it has in every state where no action can be taken.
\<close>

lemma run_append:
  "run env reqs out (xs @ ys) s = run env reqs out ys (run env reqs out xs s)"
  by (induction xs arbitrary: s) (simp_all split: option.splits)

lemma panicked_step: "panicked s \<Longrightarrow> step env reqs out a s = None"
  by (cases a) simp_all

lemma panicked_run: "panicked s \<Longrightarrow> run env reqs out sched s = s"
  by (induction sched) (simp_all add: panicked_step)

lemma no_panic_step:
  assumes "\<forall>j<length reqs. chat env j (reqs ! j) \<noteq> Inr []"
    and "\<not> panicked s" and "step env reqs out a s = Some s'"
  shows "\<not> panicked s'"
proof (cases a)
  case (Finish i)
  with assms(3) have i: "i < length reqs" and s': "s' = finishTask env reqs i s"
    by (auto split: if_splits)
  from assms(1) i have "chat env i (reqs ! i) \<noteq> Inr []" by blast
  then show ?thesis using assms(2) unfolding s' finishTask_def
    by (auto split: sum.splits list.splits)
next
  case (FinishRaced i xs)
  with assms(3) have i: "i < length reqs" and s': "s' = finishRaced env reqs i xs s"
    by (auto split: if_splits)
  from assms(1) i have "chat env i (reqs ! i) \<noteq> Inr []" by blast
  then show ?thesis using assms(2) unfolding s' finishRaced_def finishTask_def
    by (auto split: sum.splits list.splits)
next
  case CloseChan
  with assms(2,3) show ?thesis by (auto split: if_splits)
next
  case Receive
  with assms(2,3) show ?thesis
    by (auto simp: writeSummary_def Let_def split: if_splits list.splits)
qed

lemma no_panic_run:
  assumes "\<forall>j<length reqs. chat env j (reqs ! j) \<noteq> Inr []"
  shows "\<not> panicked s \<Longrightarrow> \<not> panicked (run env reqs out sched s)"
  by (induction sched arbitrary: s)
     (auto split: option.splits dest: no_panic_step[OF assms])

lemma step_finished_mono:
  "step env reqs out a s = Some s' \<Longrightarrow> set (finished s) \<subseteq> set (finished s')"
  by (cases a)
     (auto simp: finishTask_def finishRaced_def writeSummary_def Let_def
           split: if_splits sum.splits list.splits)

lemma Finish_done:
  assumes "\<forall>j<length reqs. chat env j (reqs ! j) \<noteq> Inr []"
    and "\<not> panicked s" and "i < length reqs"
  shows "i \<in> set (finished (run env reqs out [Finish i] s))"
proof (cases "i \<in> set (finished s)")
  case True
  then show ?thesis by simp
next
  case False
  from assms(1,3) have "chat env i (reqs ! i) \<noteq> Inr []" by blast
  then show ?thesis using False assms(2,3)
    by (auto simp: finishTask_def split: sum.splits list.splits)
qed

lemma run_finished_mono:
  "set (finished s) \<subseteq> set (finished (run env reqs out sched s))"
proof (induction sched arbitrary: s)
  case Nil
  then show ?case by simp
next
  case (Cons a sched)
  show ?case
  proof (cases "step env reqs out a s")
    case None
    then show ?thesis using Cons[of s] by simp
  next
    case (Some s')
    then show ?thesis using Cons[of s'] step_finished_mono[OF Some] by auto
  qed
qed

lemma Finish_all_done:
  assumes ne: "\<forall>j<length reqs. chat env j (reqs ! j) \<noteq> Inr []"
  shows "\<not> panicked s \<Longrightarrow> i \<in> set is \<Longrightarrow> i < length reqs \<Longrightarrow>
         i \<in> set (finished (run env reqs out (map Finish is) s))"
proof (induction "is" arbitrary: s)
  case Nil
  then show ?case by simp
next
  case (Cons k ks)
  let ?s1 = "run env reqs out [Finish k] s"
  have r: "run env reqs out (map Finish (k # ks)) s = run env reqs out (map Finish ks) ?s1"
    using run_append[of env reqs out "[Finish k]" "map Finish ks" s] by simp
  have np: "\<not> panicked ?s1" by (rule no_panic_run[OF ne Cons.prems(1)])
  show ?case
  proof (cases "i = k")
    case True
    then have "i \<in> set (finished ?s1)" using Finish_done[OF ne Cons.prems(1)] Cons.prems(3) by blast
    then show ?thesis unfolding r using run_finished_mono by blast
  next
    case False
    then have "i \<in> set ks" using Cons.prems(2) by simp
    then show ?thesis unfolding r using Cons.IH[OF np _ Cons.prems(3)] by blast
  qed
qed

lemma completed:
  assumes c: "consistent env reqs out s" and np: "\<not> panicked s"
    and ne: "\<forall>j<length reqs. chat env j (reqs ! j) \<noteq> Inr []"
  shows "caller (run env reqs out (map Finish [0..<length reqs] @ [CloseChan, Receive]) s)
           \<noteq> NotReturned"
proof -
  let ?s1 = "run env reqs out (map Finish [0..<length reqs]) s"
  let ?s2 = "run env reqs out [CloseChan] ?s1"
  let ?s3 = "run env reqs out [Receive] ?s2"
  have r: "run env reqs out (map Finish [0..<length reqs] @ [CloseChan, Receive]) s = ?s3"
    using run_append[of env reqs out "map Finish [0..<length reqs]" "[CloseChan, Receive]" s]
      run_append[of env reqs out "[CloseChan]" "[Receive]" ?s1] by simp
  have c1: "consistent env reqs out ?s1" by (rule consistent_run[OF c])
  have np1: "\<not> panicked ?s1" by (rule no_panic_run[OF ne np])
  have "{..<length reqs} \<subseteq> set (finished ?s1)"
    using Finish_all_done[OF ne np, of _ "[0..<length reqs]" out] by auto
  then have "card {..<length reqs} \<le> card (set (finished ?s1))" by (intro card_mono) simp_all
  also have "\<dots> \<le> length (finished ?s1)" by (rule card_length)
  finally have full: "\<not> length (finished ?s1) < length reqs" by simp
  have cl: "chanClosed ?s2" using full np1 by simp
  have c2: "consistent env reqs out ?s2" by (rule consistent_run[OF c1])
  have np2: "\<not> panicked ?s2" by (rule no_panic_run[OF ne np1])
  show ?thesis
  proof (cases "caller ?s2 = NotReturned")
    case False
    then have "step env reqs out Receive ?s2 = None" by simp
    then have "?s3 = ?s2" by simp
    with False show ?thesis unfolding r by simp
  next
    case True
    then show ?thesis unfolding r using cl np2
      by (cases "errChan ?s2") (simp_all add: writeSummary_def Let_def)
  qed
qed

lemma quiescent_returned:
  assumes "consistent env reqs out s" and "\<not> panicked s"
    and "\<forall>a. step env reqs out a s = None"
  shows "caller s \<noteq> NotReturned"
  using step_enabled[OF assms(1,2)] assms(3) by auto

section \<open>Properties of the traces\<close>

lemma requests_ratio:
  "r \<in> set (requests model transcript ratio) \<Longrightarrow> reqRatio r = clampRatio ratio"
  by (auto simp: requests_def)

lemma summarizeRun_events:
  assumes "ev \<in> set (effects (summarizeRun env sched model transcript out ratio))"
  shows "requestsOk (requests model transcript ratio) out ev"
  using consistent_summarizeRun[of env model transcript ratio out sched] assms
  by (simp add: consistent_def)

lemma requestsOk_request:
  "requestsOk (requests model transcript ratio) out (EvRequest i r) \<Longrightarrow>
   reqRatio r = clampRatio ratio"
  using requests_ratio[of "requests model transcript ratio ! i" model transcript ratio]
  by (simp add: requestsOk_def)

lemma requestsOk_write: "requestsOk reqs out (EvWriteFile p c) \<Longrightarrow> p = out"
  by (simp add: requestsOk_def)

lemma requestsOk_cases:
  "requestsOk reqs out ev \<Longrightarrow> (\<exists>i r. ev = EvRequest i r) \<or> (\<exists>c. ev = EvWriteFile out c)"
  by (cases ev) (simp_all add: requestsOk_def)

lemma summarizeText_events:
  assumes "ev \<in> set (snd (summarizeText env sched model inputPath out ratio))"
  shows "ev = EvReadFile inputPath \<or>
         (\<exists>transcript. requestsOk (requests model transcript ratio) out ev)"
proof (cases "readFile env inputPath")
  case (Inl err)
  with assms show ?thesis by (simp add: summarizeText_def)
next
  case (Inr transcript)
  with assms have "ev = EvReadFile inputPath \<or>
      ev \<in> set (effects (summarizeRun env sched model transcript out ratio))"
    by (simp add: summarizeText_def Let_def)
  then show ?thesis using summarizeRun_events by blast
qed

lemma summarizeText_request:
  "EvRequest i r \<in> set (snd (summarizeText env sched model inputPath out ratio)) \<Longrightarrow>
   reqRatio r = clampRatio ratio"
  using summarizeText_events[of "EvRequest i r" env sched model inputPath out ratio]
  by (auto dest: requestsOk_request)

lemma summarizeText_write:
  "EvWriteFile p c \<in> set (snd (summarizeText env sched model inputPath out ratio)) \<Longrightarrow> p = out"
  using summarizeText_events[of "EvWriteFile p c" env sched model inputPath out ratio]
  by (auto dest: requestsOk_write)

lemma extractAudio_events:
  "ev \<in> set (snd (extractAudio env videoPath audioPath)) \<Longrightarrow> \<exists>cmd. ev = EvExec cmd"
  by (auto simp: extractAudio_def Let_def split: option.splits)

lemma transcribeAudio_events:
  "ev \<in> set (snd (transcribeAudio env model audioPath out)) \<Longrightarrow>
   ev = EvOpen audioPath \<or> ev = EvTranscription model audioPath \<or> ev = EvCreate out \<or>
   (\<exists>content. ev = EvWriteString out content)"
  by (auto simp: transcribeAudio_def split: option.splits sum.splits)

lemma generateExec_events:
  assumes "ev \<in> set (snd (generateExec env sched model videoPath outputPath ratio))"
  shows "ev = EvMkdirTemp \<or> (\<exists>dir. ev = EvRemoveAll dir) \<or>
         (\<exists>a. ev \<in> set (snd (extractAudio env videoPath a))) \<or>
         (\<exists>a t. ev \<in> set (snd (transcribeAudio env model a t))) \<or>
         (\<exists>t. ev \<in> set (snd (summarizeText env sched model t
                  (generateOutputPath (windows env) videoPath outputPath) ratio)))"
proof (cases "videoPath = []")
  case True
  with assms show ?thesis by (simp add: generateExec_def)
next
  case False
  show ?thesis
  proof (cases "mkdirTemp env")
    case (Inl err)
    with assms False show ?thesis by (simp add: generateExec_def)
  next
    case (Inr tmpDir)
    obtain e1 tr1 where x: "extractAudio env videoPath (filepathJoin env tmpDir ''audio.mp3'') = (e1, tr1)"
      by (cases "extractAudio env videoPath (filepathJoin env tmpDir ''audio.mp3'')")
    obtain e2 tr2 where t: "transcribeAudio env model (filepathJoin env tmpDir ''audio.mp3'')
        (filepathJoin env tmpDir ''transcript.txt'') = (e2, tr2)"
      by (cases "transcribeAudio env model (filepathJoin env tmpDir ''audio.mp3'')
        (filepathJoin env tmpDir ''transcript.txt'')")
    obtain r3 tr3 where u: "summarizeText env sched model (filepathJoin env tmpDir ''transcript.txt'')
        (generateOutputPath (windows env) videoPath outputPath) ratio = (r3, tr3)"
      by (cases "summarizeText env sched model (filepathJoin env tmpDir ''transcript.txt'')
        (generateOutputPath (windows env) videoPath outputPath) ratio")
    have "ev = EvMkdirTemp \<or> ev = EvRemoveAll tmpDir \<or> ev \<in> set tr1 \<or> ev \<in> set tr2 \<or> ev \<in> set tr3"
      using assms False Inr x t u
      by (auto simp: generateExec_def Let_def split: option.splits outcome.splits)
    moreover have "set tr1 = set (snd (extractAudio env videoPath (filepathJoin env tmpDir ''audio.mp3'')))"
      using x by simp
    moreover have "set tr2 = set (snd (transcribeAudio env model (filepathJoin env tmpDir ''audio.mp3'')
        (filepathJoin env tmpDir ''transcript.txt'')))"
      using t by simp
    moreover have "set tr3 = set (snd (summarizeText env sched model (filepathJoin env tmpDir ''transcript.txt'')
        (generateOutputPath (windows env) videoPath outputPath) ratio))"
      using u by simp
    ultimately show ?thesis by blast
  qed
qed

lemma generateExec_request:
  assumes "EvRequest i r \<in> set (snd (generateExec env sched model videoPath outputPath ratio))"
  shows "reqRatio r = clampRatio ratio"
  using generateExec_events[OF assms]
  by (auto dest: extractAudio_events transcribeAudio_events summarizeText_request)

lemma generateExec_write:
  assumes "EvWriteFile p c \<in> set (snd (generateExec env sched model videoPath outputPath ratio))"
  shows "p = generateOutputPath (windows env) videoPath outputPath"
  using generateExec_events[OF assms]
  by (auto dest: extractAudio_events transcribeAudio_events summarizeText_write)

lemma summarizeExec_write:
  assumes "EvWriteFile p c \<in> set (snd (summarizeExec env sched model inputPath outputPath ratio))"
  shows "p = summarizeOutputPath (windows env) inputPath outputPath"
proof -
  from assms have "EvWriteFile p c \<in> set (snd (summarizeText env sched model inputPath
        (summarizeOutputPath (windows env) inputPath outputPath) ratio))"
    by (auto simp: summarizeExec_def split: if_splits prod.splits)
  then show ?thesis by (rule summarizeText_write)
qed

lemma transcribeExec_create:
  assumes "EvCreate p \<in> set (snd (transcribeExec env model audioPath outputPath))"
  shows "p = transcribeOutputPath (windows env) audioPath outputPath"
proof -
  from assms have "EvCreate p \<in> set (snd (transcribeAudio env model audioPath
        (transcribeOutputPath (windows env) audioPath outputPath)))"
    by (auto simp: transcribeExec_def split: if_splits prod.splits option.splits)
  then show ?thesis by (auto dest: transcribeAudio_events)
qed


section \<open>Properties of the ratio\<close>

lemma fle_not_flt: "fle a b \<Longrightarrow> \<not> flt b a"
  by (cases a; cases b) simp_all

lemma wrapOutcome_not_ratio: "wrapOutcome SummarizeFailed r \<noteq> Returned (Some RatioOutOfRange)"
  by (auto simp: wrapOutcome_def split: outcome.splits option.splits)

section \<open>Properties of the error path and of the write\<close>


lemma all_finished:
  assumes "consistent env reqs out s" and "chanClosed s" and "i < length reqs"
  shows "i \<in> set (finished s)"
proof -
  have "length (finished s) = length reqs" using assms(1,2) by (simp add: consistent_def)
  moreover have "card (set (finished s)) = length (finished s)"
    using assms(1) by (simp add: consistent_def distinct_card)
  moreover have "set (finished s) \<subseteq> {..<length reqs}" using assms(1) by (simp add: consistent_def)
  ultimately have "set (finished s) = {..<length reqs}"
    by (metis card_lessThan card_subset_eq finite_lessThan)
  with assms(3) show ?thesis by simp
qed


lemma summarizeText_Inr:
  "readFile env inputPath = Inr transcript \<Longrightarrow>
   summarizeText env sched model inputPath out ratio =
     (caller (summarizeRun env sched model transcript out ratio),
      EvReadFile inputPath # effects (summarizeRun env sched model transcript out ratio))"
  by (simp add: summarizeText_def Let_def)

lemma isWrite_ReadFile [simp]: "isWrite (EvReadFile p) = False"
  by (simp add: isWrite_def)

lemma write_is_joined:
  assumes c: "consistent env reqs out s" and w: "EvWriteFile p c \<in> set (effects s)"
  shows "p = out \<and> c = Join (summaries s) separator \<and>
         filter isWrite (effects s) = [EvWriteFile p c]"
proof -
  from w have m: "EvWriteFile p c \<in> set (filter isWrite (effects s))" by simp
  then have ne: "filter isWrite (effects s) \<noteq> []"
    by (metis empty_iff list.set(1))
  have "filter isWrite (effects s) = [EvWriteFile out (Join (summaries s) separator)]"
    using c ne by (cases "caller s") (auto simp: consistent_def)
  with m c show ?thesis by (simp add: consistent_def)
qed

lemma sentErrors_answered:
  assumes "\<forall>j<length reqs. \<exists>content others. chat env j (reqs ! j) = Inr (content # others)"
    and "set done \<subseteq> {..<length reqs}"
  shows "sentErrors env reqs done = []"
  using assms(2)
proof (induction "done")
  case Nil
  then show ?case by (simp add: sentErrors_def)
next
  case (Cons k ks)
  then have "k < length reqs" by simp
  with assms(1) obtain content others where "chat env k (reqs ! k) = Inr (content # others)" by blast
  then have "sentErrors env reqs [k] = []" by (simp add: sentErrors_def)
  moreover have "sentErrors env reqs ks = []" using Cons by simp
  ultimately show ?case using sentErrors_append[of env reqs "[k]" ks] by simp
qed

lemma answered_written:
  assumes c: "consistent env reqs out s" and r: "caller s \<noteq> NotReturned"
    and a: "\<forall>j<length reqs. \<exists>content others. chat env j (reqs ! j) = Inr (content # others)"
  shows "filter isWrite (effects s) = [EvWriteFile out (Join (summaries s) separator)] \<and>
         caller s = Returned (case writeFile env out (Join (summaries s) separator) of
                                Some err \<Rightarrow> Some (Wrapped WriteSummaryFailed (External err))
                              | None \<Rightarrow> None)"
proof -
  have "set (finished s) \<subseteq> {..<length reqs}" using c by (simp add: consistent_def)
  then have "sentErrors env reqs (finished s) = []" by (rule sentErrors_answered[OF a])
  then show ?thesis using c r unfolding consistent_def by (cases "caller s") auto
qed

lemma answered_no_empty:
  "\<forall>j<length reqs. \<exists>content others. chat env j (reqs ! j) = Inr (content # others) \<Longrightarrow>
   \<forall>j<length reqs. chat env j (reqs ! j) \<noteq> Inr []"
  by fastforce

lemma atomic_step_summaries:
  assumes "atomicAppend a" and "step env reqs out a s = Some s'"
    and "summaries s = collected env reqs (finished s)"
  shows "summaries s' = collected env reqs (finished s')"
proof (cases a)
  case (Finish i)
  with assms(2) have s': "s' = finishTask env reqs i s" by (auto split: if_splits)
  show ?thesis
  proof (cases "chat env i (reqs ! i)")
    case (Inl err)
    then have "collected env reqs [i] = []" by (simp add: collected_def)
    then show ?thesis using Inl assms(3) unfolding s' finishTask_def
      by (simp add: collected_append)
  next
    case (Inr choices)
    show ?thesis
    proof (cases choices)
      case Nil
      then show ?thesis using Inr assms(3) unfolding s' finishTask_def by simp
    next
      case (Cons content others)
      then have "collected env reqs [i] = [content]" using Inr by (simp add: collected_def)
      then show ?thesis using Inr Cons assms(3) unfolding s' finishTask_def
        by (simp add: collected_append)
    qed
  qed
next
  case (FinishRaced i xs)
  with assms(1) show ?thesis by simp
next
  case CloseChan
  with assms(2,3) show ?thesis by (auto split: if_splits)
next
  case Receive
  with assms(2,3) show ?thesis
    by (auto simp: writeSummary_def Let_def split: if_splits list.splits)
qed

lemma atomic_run_summaries:
  "list_all atomicAppend sched \<Longrightarrow> summaries s = collected env reqs (finished s) \<Longrightarrow>
   summaries (run env reqs out sched s) = collected env reqs (finished (run env reqs out sched s))"
proof (induction sched arbitrary: s)
  case Nil
  then show ?case by simp
next
  case (Cons a sched)
  then have a: "atomicAppend a" and rest: "list_all atomicAppend sched" by simp_all
  show ?case
  proof (cases "step env reqs out a s")
    case None
    then show ?thesis using Cons.IH[OF rest Cons.prems(2)] by simp
  next
    case (Some s')
    have "summaries s' = collected env reqs (finished s')"
      by (rule atomic_step_summaries[OF a Some Cons.prems(2)])
    then show ?thesis using Cons.IH[OF rest] Some by simp
  qed
qed

lemma atomic_summarizeRun:
  "list_all atomicAppend sched \<Longrightarrow>
   summaries (summarizeRun env sched model transcript out ratio) =
     collected env (requests model transcript ratio)
       (finished (summarizeRun env sched model transcript out ratio))"
  unfolding summarizeRun_def
  by (rule atomic_run_summaries) (simp_all add: start_def collected_def)

lemma summarizeRun_append:
  "summarizeRun env (sched @ others) model transcript out ratio =
     run env (requests model transcript ratio) out others
       (summarizeRun env sched model transcript out ratio)"
  by (simp add: summarizeRun_def run_append)

lemma start_not_panicked: "\<not> panicked start"
  by (simp add: start_def)

lemma summarizeRun_no_panic:
  "\<forall>j<length (requests model transcript ratio).
      chat env j (requests model transcript ratio ! j) \<noteq> Inr [] \<Longrightarrow>
   \<not> panicked (summarizeRun env sched model transcript out ratio)"
  unfolding summarizeRun_def by (rule no_panic_run) (simp_all add: start_def)

lemma summarizeRun_completed:
  assumes "\<forall>j<length (requests model transcript ratio).
      chat env j (requests model transcript ratio ! j) \<noteq> Inr []"
  shows "caller (summarizeRun env
           (sched @ map Finish [0..<length (requests model transcript ratio)] @ [CloseChan, Receive])
           model transcript out ratio) \<noteq> NotReturned"
  unfolding summarizeRun_append
  by (rule completed[OF consistent_summarizeRun summarizeRun_no_panic[OF assms] assms])

lemma summarizeRun_quiescent:
  assumes "\<forall>j<length (requests model transcript ratio).
      chat env j (requests model transcript ratio ! j) \<noteq> Inr []"
    and "\<forall>a. step env (requests model transcript ratio) out a
             (summarizeRun env sched model transcript out ratio) = None"
  shows "caller (summarizeRun env sched model transcript out ratio) \<noteq> NotReturned"
  by (rule quiescent_returned[OF consistent_summarizeRun summarizeRun_no_panic[OF assms(1)] assms(2)])

section \<open>Properties of the paths\<close>

lemma extScan_suffix: "\<exists>stem. rev rest @ acc = stem @ extScan win acc rest"
proof (induction rest arbitrary: acc)
  case Nil
  then show ?case by simp
next
  case (Cons c rest)
  from Cons[of "c # acc"] show ?case by auto
qed

lemma Ext_suffix: "\<exists>stem. path = stem @ Ext win path"
  using extScan_suffix[of "rev path" "[]" win] by (simp add: Ext_def)

lemma TrimSuffix_Ext: "TrimSuffix path (Ext win path) @ Ext win path = path"
proof -
  obtain stem where p: "path = stem @ Ext win path" using Ext_suffix by blast
  then have l: "length path = length stem + length (Ext win path)"
    by (metis length_append)
  have "HasSuffix path (Ext win path)"
    unfolding HasSuffix_def using l p by (metis add_diff_cancel_right' append_eq_conv_conj le_add2)
  moreover have "take (length path - length (Ext win path)) path = stem"
    using l p by (metis add_diff_cancel_right' append_eq_conv_conj)
  ultimately show ?thesis using p by (simp add: TrimSuffix_def)
qed

lemma extScan_shape:
  assumes "extScan win acc rest \<noteq> []"
    and "\<forall>c\<in>set acc. c \<noteq> CHR ''.'' \<and> \<not> IsPathSeparator win c"
  shows "\<exists>name. extScan win acc rest = CHR ''.'' # name \<and>
           (\<forall>c\<in>set name. c \<noteq> CHR ''.'' \<and> \<not> IsPathSeparator win c)"
  using assms
proof (induction rest arbitrary: acc)
  case Nil
  then show ?case by simp
next
  case (Cons c rest)
  show ?case
  proof (cases "IsPathSeparator win c \<or> c = CHR ''.''")
    case True
    with Cons.prems show ?thesis by (auto split: if_splits)
  next
    case False
    then have "extScan win acc (c # rest) = extScan win (c # acc) rest" by simp
    moreover have "\<forall>d\<in>set (c # acc). d \<noteq> CHR ''.'' \<and> \<not> IsPathSeparator win d"
      using False Cons.prems(2) by simp
    ultimately show ?thesis using Cons.IH[of "c # acc"] Cons.prems(1) by simp
  qed
qed

lemma Ext_shape:
  "Ext win path \<noteq> [] \<Longrightarrow>
   \<exists>name. Ext win path = CHR ''.'' # name \<and>
     (\<forall>c\<in>set name. c \<noteq> CHR ''.'' \<and> \<not> IsPathSeparator win c)"
  unfolding Ext_def by (rule extScan_shape) simp_all

section \<open>Example runs\<close>

lemma two_requests:
  "requests model oneWord ratio =
     [\<lparr>reqModel = model, reqText = [], reqRatio = clampRatio ratio\<rparr>,
      \<lparr>reqModel = model, reqText = oneWord, reqRatio = clampRatio ratio\<rparr>]"
  by (simp add: requests_def oneWord_def one_long_word)

lemma failing_run:
  "summarizeRun failingEnv [Finish 0, Finish 1, CloseChan, Receive] ''m'' oneWord ''out.txt''
     (Finite (3 / 10)) =
   \<lparr>finished = [0, 1], errChan = [], chanClosed = True, summaries = [''s''],
    caller = Returned (Some (Wrapped (PartFailed 2) (External ''boom''))),
    effects = [EvRequest 0 \<lparr>reqModel = ''m'', reqText = [], reqRatio = Finite (3 / 10)\<rparr>,
               EvRequest 1 \<lparr>reqModel = ''m'', reqText = oneWord, reqRatio = Finite (3 / 10)\<rparr>],
    panicked = False\<rparr>"
  by (simp add: summarizeRun_def two_requests failingEnv_def sampleEnv_def start_def
      finishTask_def writeSummary_def clampRatio_def fgt_def ratioMin_def ratioMax_def)

lemma answered_run:
  "summarizeRun answeringEnv [Finish 1, Finish 0, CloseChan, Receive] ''m'' oneWord ''out.txt''
     (Finite (3 / 10)) =
   \<lparr>finished = [1, 0], errChan = [], chanClosed = True, summaries = [''second'', ''first''],
    caller = Returned None,
    effects = [EvRequest 1 \<lparr>reqModel = ''m'', reqText = oneWord, reqRatio = Finite (3 / 10)\<rparr>,
               EvRequest 0 \<lparr>reqModel = ''m'', reqText = [], reqRatio = Finite (3 / 10)\<rparr>,
               EvWriteFile ''out.txt'' (''second'' @ separator @ ''first'')],
    panicked = False\<rparr>"
  by (simp add: summarizeRun_def two_requests answeringEnv_def sampleEnv_def start_def
      finishTask_def writeSummary_def clampRatio_def fgt_def ratioMin_def ratioMax_def)

lemma generate_example:
  "generateExec (sampleEnv (\<lambda>_. Inr ''a b'') (\<lambda>_ _. Inr [''s''])) [Finish 0, CloseChan, Receive]
       ''m'' ''video.mp4'' outputPath (Finite (3 / 10)) =
   (Returned None,
    [EvMkdirTemp,
     EvExec [''ffmpeg'', ''-i'', ''video.mp4'', ''-vn'', ''-acodec'', ''libmp3lame'',
             ''/tmp/video-note-1/audio.mp3''],
     EvOpen ''/tmp/video-note-1/audio.mp3'',
     EvTranscription ''m'' ''/tmp/video-note-1/audio.mp3'',
     EvCreate ''/tmp/video-note-1/transcript.txt'',
     EvWriteString ''/tmp/video-note-1/transcript.txt'' ''text'',
     EvReadFile ''/tmp/video-note-1/transcript.txt'',
     EvRequest 0 \<lparr>reqModel = ''m'', reqText = ''a b'', reqRatio = Finite (3 / 10)\<rparr>,
     EvWriteFile (if outputPath = [] then ''video.txt'' else outputPath) ''s'',
     EvRemoveAll ''/tmp/video-note-1''])"
  by (simp add: Let_def generateExec_def summarizeText_def summarizeRun_def requests_def sampleEnv_def
  splitTextIntoChunks_def splitWords_def Fields_def asciiSpace_def
  ratioMin_def ratioMax_def fgt_def clampRatio_def start_def
  finishTask_def writeSummary_def wrapOutcome_def
  generateOutputPath_def
  TrimSuffix_def HasSuffix_def Ext_def IsPathSeparator_def
  extractAudio_def transcribeAudio_def)

lemma transcribe_example:
  "transcribeExec (sampleEnv rd ch) ''m'' ''video.mp4'' [] =
   (Returned None,
    [EvOpen ''video.mp4'', EvTranscription ''m'' ''video.mp4'',
     EvCreate ''video.txt'', EvWriteString ''video.txt'' ''text''])"
  by (simp add: transcribeExec_def sampleEnv_def transcribeOutputPath_def
  TrimSuffix_def HasSuffix_def Ext_def IsPathSeparator_def transcribeAudio_def)

lemma summarize_example:
  "summarizeExec (sampleEnv (\<lambda>_. Inr ''a b'') (\<lambda>_ _. Inr [''s''])) [Finish 0, CloseChan, Receive]
       ''m'' ''transcript.txt'' [] (Finite (3 / 10)) =
   (Returned None,
    [EvReadFile ''transcript.txt'',
     EvRequest 0 \<lparr>reqModel = ''m'', reqText = ''a b'', reqRatio = Finite (3 / 10)\<rparr>,
     EvWriteFile ''transcript.summary.txt'' ''s''])"
  by (simp add: summarizeExec_def summarizeText_def summarizeRun_def requests_def sampleEnv_def
      splitTextIntoChunks_def splitWords_def Fields_def asciiSpace_def 
      ratioMin_def ratioMax_def fgt_def clampRatio_def start_def
      finishTask_def writeSummary_def wrapOutcome_def summarizeOutputPath_def TrimSuffix_def
      HasSuffix_def Ext_def IsPathSeparator_def)

section \<open>Claims about the subcommands\<close>

text \<open>
  C5: \<open>summarize\<close> returns the ratio error exactly when an input path is given and the
  ratio is below 0.1 or above 0.5; with such a ratio it returns an error (that one, or
  the one for the missing input path) with an empty trace, so nothing was read,
  requested or written; with a ratio within the interval it does not return that error.
\<close>

theorem summarize_rejects_ratio_out_of_range:
  "(fst (summarizeExec env sched model inputPath outputPath summaryRatio)
      = Returned (Some RatioOutOfRange)
    \<longleftrightarrow> inputPath \<noteq> [] \<and> (flt summaryRatio ratioMin \<or> fgt summaryRatio ratioMax)) \<and>
   (flt summaryRatio ratioMin \<or> fgt summaryRatio ratioMax \<longrightarrow>
      summarizeExec env sched model inputPath outputPath summaryRatio =
        (Returned (Some (if inputPath = [] then MissingInput else RatioOutOfRange)), [])) \<and>
   (fle ratioMin summaryRatio \<and> fle summaryRatio ratioMax \<longrightarrow>
      fst (summarizeExec env sched model inputPath outputPath summaryRatio)
        \<noteq> Returned (Some RatioOutOfRange))"
proof -
  have within: "fle ratioMin summaryRatio \<and> fle summaryRatio ratioMax \<Longrightarrow>
      \<not> flt summaryRatio ratioMin \<and> \<not> fgt summaryRatio ratioMax"
    by (simp add: fle_not_flt fgt_def)
  show ?thesis
    using within
    by (auto simp: summarizeExec_def wrapOutcome_not_ratio split: prod.splits)
qed

text \<open>C5 at the ratios 0.05 and 0.3.\<close>

theorem summarize_rejects_ratio_out_of_range_witness:
  "flt (Finite (1 / 20)) ratioMin \<and>
   summarizeExec (sampleEnv (\<lambda>_. Inr ''a b'') (\<lambda>_ _. Inr [''s''])) [Finish 0, CloseChan, Receive]
       ''m'' ''t.txt'' [] (Finite (1 / 20)) =
     (Returned (Some (if ''t.txt'' = [] then MissingInput else RatioOutOfRange)), []) \<and>
   fle ratioMin (Finite (3 / 10)) \<and> fle (Finite (3 / 10)) ratioMax \<and>
   fst (summarizeExec (sampleEnv (\<lambda>_. Inr ''a b'') (\<lambda>_ _. Inr [''s''])) [Finish 0, CloseChan, Receive]
       ''m'' ''t.txt'' [] (Finite (3 / 10))) \<noteq> Returned (Some RatioOutOfRange)"
proof -
  have a: "flt (Finite (1 / 20)) ratioMin" by (simp add: ratioMin_def)
  have b: "fle ratioMin (Finite (3 / 10))" "fle (Finite (3 / 10)) ratioMax"
    by (simp_all add: ratioMin_def ratioMax_def)
  from a b
    summarize_rejects_ratio_out_of_range[where summaryRatio = "Finite (1 / 20)"
      and inputPath = "''t.txt''" and outputPath = "[]" and model = "''m''"
      and sched = "[Finish 0, CloseChan, Receive]"
      and env = "sampleEnv (\<lambda>_. Inr ''a b'') (\<lambda>_ _. Inr [''s''])"]
    summarize_rejects_ratio_out_of_range[where summaryRatio = "Finite (3 / 10)"
      and inputPath = "''t.txt''" and outputPath = "[]" and model = "''m''"
      and sched = "[Finish 0, CloseChan, Receive]"
      and env = "sampleEnv (\<lambda>_. Inr ''a b'') (\<lambda>_ _. Inr [''s''])"]
  show ?thesis by blast
qed

text \<open>
  C6: for every ratio passed to the summarization step the ratio used is the input
  clamped into the interval from 0.1 to 0.5. The flag \<open>-ratio NaN\<close> is a ratio that
  \<open>generate\<close> passes on; neither comparison of lines 178 and 180 holds of it, so the
  clamp lets it through, the ratio used is NaN, which is not in the interval, and the
  request carries it.
\<close>

theorem NaN_ratio_not_clamped:
  "clampRatio NaN = NaN \<and>
   \<not> fle ratioMin (clampRatio NaN) \<and> \<not> fle (clampRatio NaN) ratioMax \<and>
   map reqRatio (requests ''m'' ''a b'' NaN) = [NaN] \<and>
   snd (generateExec (sampleEnv (\<lambda>_. Inr ''a b'') (\<lambda>_ _. Inr [''s''])) [Finish 0]
          ''m'' ''video.mp4'' [] NaN) ! 7 =
     EvRequest 0 \<lparr>reqModel = ''m'', reqText = ''a b'', reqRatio = NaN\<rparr>"
  by (simp add: Let_def generateExec_def summarizeText_def summarizeRun_def requests_def sampleEnv_def
  splitTextIntoChunks_def splitWords_def Fields_def asciiSpace_def
  ratioMin_def ratioMax_def fgt_def clampRatio_def start_def
  finishTask_def writeSummary_def wrapOutcome_def
  generateOutputPath_def
  TrimSuffix_def HasSuffix_def Ext_def IsPathSeparator_def
  extractAudio_def transcribeAudio_def)

text \<open>
  What the clamp does do: a ratio below 0.1 becomes 0.1, one above 0.5 becomes 0.5, one
  inside the interval is unchanged, and the result lies in the interval unless the
  ratio is NaN; every request carries the ratio so obtained.
\<close>

lemma clampRatio_cases:
  "(flt ratio ratioMin \<longrightarrow> clampRatio ratio = ratioMin) \<and>
   (fgt ratio ratioMax \<longrightarrow> clampRatio ratio = ratioMax) \<and>
   (fle ratioMin ratio \<and> fle ratio ratioMax \<longrightarrow> clampRatio ratio = ratio) \<and>
   (ratio \<noteq> NaN \<longrightarrow> fle ratioMin (clampRatio ratio) \<and> fle (clampRatio ratio) ratioMax) \<and>
   (\<forall>r\<in>set (requests model transcript ratio). reqRatio r = clampRatio ratio) \<and>
   (EvRequest i r \<in> set (snd (generateExec env sched model videoPath outputPath ratio)) \<longrightarrow>
      reqRatio r = clampRatio ratio)"
proof -
  have a: "(flt ratio ratioMin \<longrightarrow> clampRatio ratio = ratioMin) \<and>
   (fgt ratio ratioMax \<longrightarrow> clampRatio ratio = ratioMax) \<and>
   (fle ratioMin ratio \<and> fle ratio ratioMax \<longrightarrow> clampRatio ratio = ratio) \<and>
   (ratio \<noteq> NaN \<longrightarrow> fle ratioMin (clampRatio ratio) \<and> fle (clampRatio ratio) ratioMax)"
    by (cases ratio) (auto simp: clampRatio_def fgt_def ratioMin_def ratioMax_def)
  show ?thesis
    using a requests_ratio[of _ model transcript ratio]
      generateExec_request[of i r env sched model videoPath outputPath ratio]
    by blast
qed

text \<open>
  C7: with an empty \<open>-o\<close> the output path is the input path without its extension,
  followed by \<open>.txt\<close> for \<open>generate\<close> and \<open>transcribe\<close> and by \<open>.summary.txt\<close> for
  \<open>summarize\<close>, so \<open>video.mp4\<close> gives \<open>video.txt\<close> and \<open>transcript.txt\<close> gives
  \<open>transcript.summary.txt\<close>; the path without the extension, followed by the
  extension, is the input path; a given \<open>-o\<close> is used as it is; and the file each
  subcommand writes or creates has that path.
\<close>

theorem default_output_path:
  "generateOutputPath win ''video.mp4'' [] = ''video.txt'' \<and>
   transcribeOutputPath win ''video.mp4'' [] = ''video.txt'' \<and>
   summarizeOutputPath win ''transcript.txt'' [] = ''transcript.summary.txt'' \<and>
   generateOutputPath win inputPath [] =
     TrimSuffix inputPath (Ext win inputPath) @ ''.txt'' \<and>
   transcribeOutputPath win inputPath [] =
     TrimSuffix inputPath (Ext win inputPath) @ ''.txt'' \<and>
   summarizeOutputPath win inputPath [] =
     TrimSuffix inputPath (Ext win inputPath) @ ''.summary.txt'' \<and>
   TrimSuffix inputPath (Ext win inputPath) @ Ext win inputPath = inputPath \<and>
   (outputPath \<noteq> [] \<longrightarrow>
      generateOutputPath win inputPath outputPath = outputPath \<and>
      transcribeOutputPath win inputPath outputPath = outputPath \<and>
      summarizeOutputPath win inputPath outputPath = outputPath) \<and>
   (EvWriteFile p c \<in> set (snd (generateExec env sched model inputPath outputPath ratio)) \<longrightarrow>
      p = generateOutputPath (windows env) inputPath outputPath) \<and>
   (EvCreate p \<in> set (snd (transcribeExec env model inputPath outputPath)) \<longrightarrow>
      p = transcribeOutputPath (windows env) inputPath outputPath) \<and>
   (EvWriteFile p c \<in> set (snd (summarizeExec env sched model inputPath outputPath ratio)) \<longrightarrow>
      p = summarizeOutputPath (windows env) inputPath outputPath)"
proof -
  have ex: "generateOutputPath win ''video.mp4'' [] = ''video.txt''"
    "transcribeOutputPath win ''video.mp4'' [] = ''video.txt''"
    "summarizeOutputPath win ''transcript.txt'' [] = ''transcript.summary.txt''"
    by (simp_all add: generateOutputPath_def transcribeOutputPath_def summarizeOutputPath_def
        TrimSuffix_def HasSuffix_def Ext_def IsPathSeparator_def)
  have df: "generateOutputPath win inputPath [] =
     TrimSuffix inputPath (Ext win inputPath) @ ''.txt''"
    "transcribeOutputPath win inputPath [] =
     TrimSuffix inputPath (Ext win inputPath) @ ''.txt''"
    "summarizeOutputPath win inputPath [] =
     TrimSuffix inputPath (Ext win inputPath) @ ''.summary.txt''"
    by (simp_all add: generateOutputPath_def transcribeOutputPath_def summarizeOutputPath_def)
  have gv: "outputPath \<noteq> [] \<longrightarrow>
      generateOutputPath win inputPath outputPath = outputPath \<and>
      transcribeOutputPath win inputPath outputPath = outputPath \<and>
      summarizeOutputPath win inputPath outputPath = outputPath"
    by (simp add: generateOutputPath_def transcribeOutputPath_def summarizeOutputPath_def)
  show ?thesis
    using ex df gv TrimSuffix_Ext[of inputPath win]
      generateExec_write[of p c env sched model inputPath outputPath ratio]
      transcribeExec_create[of p env model inputPath outputPath]
      summarizeExec_write[of p c env sched model inputPath outputPath ratio]
    by blast
qed


text \<open>C7 at \<open>-o notes.txt\<close>, and at runs of the three subcommands with an empty \<open>-o\<close>.\<close>

theorem default_output_path_witness:
  "''notes.txt'' \<noteq> [] \<and>
   generateOutputPath False ''video.mp4'' ''notes.txt'' = ''notes.txt'' \<and>
   transcribeOutputPath False ''video.mp4'' ''notes.txt'' = ''notes.txt'' \<and>
   summarizeOutputPath False ''video.mp4'' ''notes.txt'' = ''notes.txt'' \<and>
   EvWriteFile ''video.txt'' ''s'' \<in> set (snd (generateExec
      (sampleEnv (\<lambda>_. Inr ''a b'') (\<lambda>_ _. Inr [''s''])) [Finish 0, CloseChan, Receive]
      ''m'' ''video.mp4'' [] (Finite (3 / 10)))) \<and>
   ''video.txt'' = generateOutputPath
      (windows (sampleEnv (\<lambda>_. Inr ''a b'') (\<lambda>_ _. Inr [''s'']))) ''video.mp4'' [] \<and>
   EvCreate ''video.txt'' \<in> set (snd (transcribeExec
      (sampleEnv (\<lambda>_. Inr ''a b'') (\<lambda>_ _. Inr [''s''])) ''m'' ''video.mp4'' [])) \<and>
   ''video.txt'' = transcribeOutputPath
      (windows (sampleEnv (\<lambda>_. Inr ''a b'') (\<lambda>_ _. Inr [''s'']))) ''video.mp4'' [] \<and>
   EvWriteFile ''transcript.summary.txt'' ''s'' \<in> set (snd (summarizeExec
      (sampleEnv (\<lambda>_. Inr ''a b'') (\<lambda>_ _. Inr [''s''])) [Finish 0, CloseChan, Receive]
      ''m'' ''transcript.txt'' [] (Finite (3 / 10)))) \<and>
   ''transcript.summary.txt'' = summarizeOutputPath
      (windows (sampleEnv (\<lambda>_. Inr ''a b'') (\<lambda>_ _. Inr [''s'']))) ''transcript.txt'' []"
proof -
  have n: "''notes.txt'' \<noteq> []" by simp
  have g: "EvWriteFile ''video.txt'' ''s'' \<in> set (snd (generateExec
      (sampleEnv (\<lambda>_. Inr ''a b'') (\<lambda>_ _. Inr [''s''])) [Finish 0, CloseChan, Receive]
      ''m'' ''video.mp4'' [] (Finite (3 / 10))))"
    by (simp add: generate_example)
  have t: "EvCreate ''video.txt'' \<in> set (snd (transcribeExec
      (sampleEnv (\<lambda>_. Inr ''a b'') (\<lambda>_ _. Inr [''s''])) ''m'' ''video.mp4'' []))"
    by (simp add: transcribe_example)
  have u: "EvWriteFile ''transcript.summary.txt'' ''s'' \<in> set (snd (summarizeExec
      (sampleEnv (\<lambda>_. Inr ''a b'') (\<lambda>_ _. Inr [''s''])) [Finish 0, CloseChan, Receive]
      ''m'' ''transcript.txt'' [] (Finite (3 / 10))))"
    by (simp add: summarize_example)
  from n g t u
    default_output_path[where win = False and inputPath = "''video.mp4''"
      and outputPath = "''notes.txt''"]
    default_output_path[where inputPath = "''video.mp4''" and outputPath = "[]"
      and p = "''video.txt''" and c = "''s''" and model = "''m''"
      and env = "sampleEnv (\<lambda>_. Inr ''a b'') (\<lambda>_ _. Inr [''s''])"
      and sched = "[Finish 0, CloseChan, Receive]" and ratio = "Finite (3 / 10)"]
    default_output_path[where inputPath = "''transcript.txt''" and outputPath = "[]"
      and p = "''transcript.summary.txt''" and c = "''s''" and model = "''m''"
      and env = "sampleEnv (\<lambda>_. Inr ''a b'') (\<lambda>_ _. Inr [''s''])"
      and sched = "[Finish 0, CloseChan, Receive]" and ratio = "Finite (3 / 10)"]
  show ?thesis by blast
qed

section \<open>Properties of the written summary\<close>

lemma summarizeText_write_content:
  assumes "EvWriteFile p c \<in> set (snd (summarizeText env sched model inputPath out ratio))"
  shows "p = out \<and>
     filter isWrite (snd (summarizeText env sched model inputPath out ratio)) = [EvWriteFile p c] \<and>
     (\<exists>transcript. readFile env inputPath = Inr transcript \<and>
        c = Join (summaries (summarizeRun env sched model transcript out ratio)) separator)"
proof (cases "readFile env inputPath")
  case (Inl err)
  with assms show ?thesis by (simp add: summarizeText_def)
next
  case (Inr transcript)
  let ?s = "summarizeRun env sched model transcript out ratio"
  have t: "summarizeText env sched model inputPath out ratio =
     (caller ?s, EvReadFile inputPath # effects ?s)"
    by (rule summarizeText_Inr[OF Inr])
  from assms have w: "EvWriteFile p c \<in> set (effects ?s)" by (simp add: t)
  have "p = out \<and> c = Join (summaries ?s) separator \<and>
         filter isWrite (effects ?s) = [EvWriteFile p c]"
    by (rule write_is_joined[OF consistent_summarizeRun w])
  then show ?thesis using Inr by (simp add: t)
qed

lemma answered_trace:
  assumes rd: "readFile env inputPath = Inr transcript"
    and an: "\<forall>j<length (requests model transcript ratio).
       \<exists>content others. chat env j (requests model transcript ratio ! j) = Inr (content # others)"
    and r: "caller (summarizeRun env sch model transcript out ratio) \<noteq> NotReturned"
  shows "filter isWrite (snd (summarizeText env sch model inputPath out ratio)) =
           [EvWriteFile out
              (Join (summaries (summarizeRun env sch model transcript out ratio)) separator)] \<and>
         set (finished (summarizeRun env sch model transcript out ratio)) =
           {..<length (requests model transcript ratio)} \<and>
         distinct (finished (summarizeRun env sch model transcript out ratio))"
proof -
  let ?s = "summarizeRun env sch model transcript out ratio"
  let ?reqs = "requests model transcript ratio"
  have c: "consistent env ?reqs out ?s" by (rule consistent_summarizeRun)
  have w: "filter isWrite (effects ?s) = [EvWriteFile out (Join (summaries ?s) separator)]"
    using answered_written[OF c r an] by blast
  have sub: "set (finished ?s) \<subseteq> {..<length ?reqs}" and d: "distinct (finished ?s)"
    using c by (simp_all add: consistent_def)
  have "sentErrors env ?reqs (finished ?s) = []" by (rule sentErrors_answered[OF an sub])
  then have cl: "chanClosed ?s" using c r unfolding consistent_def by (cases "caller ?s") auto
  have "{..<length ?reqs} \<subseteq> set (finished ?s)"
    using all_finished[OF c cl] by auto
  with sub have "set (finished ?s) = {..<length ?reqs}" by blast
  then show ?thesis using w d by (simp add: summarizeText_Inr[OF rd])
qed

lemma atomic_full:
  "list_all atomicAppend sched \<Longrightarrow>
   list_all atomicAppend (sched @ map Finish ks @ [CloseChan, Receive])"
  by (simp add: list_all_iff) auto

section \<open>Example runs of the summarizer\<close>



lemma answered_full_run:
  "summarizeRun answeringEnv
     ([Finish 1] @ map Finish [0..<length (requests ''m'' oneWord (Finite (3 / 10)))] @
        [CloseChan, Receive])
     ''m'' oneWord ''out.txt'' (Finite (3 / 10)) =
   \<lparr>finished = [1, 0], errChan = [], chanClosed = True, summaries = [''second'', ''first''],
    caller = Returned None,
    effects = [EvRequest 1 \<lparr>reqModel = ''m'', reqText = oneWord, reqRatio = Finite (3 / 10)\<rparr>,
               EvRequest 0 \<lparr>reqModel = ''m'', reqText = [], reqRatio = Finite (3 / 10)\<rparr>,
               EvWriteFile ''out.txt'' (''second'' @ separator @ ''first'')],
    panicked = False\<rparr>"
  by (simp add: summarizeRun_def two_requests answeringEnv_def sampleEnv_def start_def upt_rec
      finishTask_def writeSummary_def clampRatio_def fgt_def ratioMin_def ratioMax_def)

lemma raced_run:
  "summarizeText answeringEnv [Finish 1, FinishRaced 0 [''first''], CloseChan, Receive]
     ''m'' ''t.txt'' ''out.txt'' (Finite (3 / 10)) =
   (Returned None,
    [EvReadFile ''t.txt'',
     EvRequest 1 \<lparr>reqModel = ''m'', reqText = oneWord, reqRatio = Finite (3 / 10)\<rparr>,
     EvRequest 0 \<lparr>reqModel = ''m'', reqText = [], reqRatio = Finite (3 / 10)\<rparr>,
     EvWriteFile ''out.txt'' ''first''])"
  by (simp add: summarizeText_def summarizeRun_def two_requests answeringEnv_def sampleEnv_def
      start_def finishTask_def finishRaced_def writeSummary_def clampRatio_def fgt_def
      ratioMin_def ratioMax_def)

section \<open>Claims about the summarizer\<close>





text \<open>
  C10: a file \<open>summarizeText\<close> writes is the output file, it is the only write, and its
  content is the fragments in the slice joined with the separator of line 246. When
  every request is answered the write does happen: after any schedule, once every
  goroutine, the closer and the caller have had a turn, and in every run in which no
  action is left to take; every chunk is then finished, and when no append raced the
  fragments are those of all chunks in the order in which their goroutines finished.
  Between two fragments stands the separator as the source has it, with the two bytes
  \<open>%d\<close> in it.
\<close>

theorem combined_summary_literal_separator:
  "(EvWriteFile p c \<in> set (snd (summarizeText env sched model inputPath outputPath ratio)) \<longrightarrow>
      p = outputPath \<and>
      filter isWrite (snd (summarizeText env sched model inputPath outputPath ratio)) =
        [EvWriteFile p c] \<and>
      (\<exists>transcript. readFile env inputPath = Inr transcript \<and>
         c = Join (summaries (summarizeRun env sched model transcript outputPath ratio))
               separator)) \<and>
   (readFile env inputPath = Inr transcript \<and>
    (\<forall>j<length (requests model transcript ratio).
       \<exists>content others.
         chat env j (requests model transcript ratio ! j) = Inr (content # others)) \<longrightarrow>
      filter isWrite (snd (summarizeText env
          (sched @ map Finish [0..<length (requests model transcript ratio)] @
             [CloseChan, Receive])
          model inputPath outputPath ratio)) =
        [EvWriteFile outputPath
           (Join (summaries (summarizeRun env
              (sched @ map Finish [0..<length (requests model transcript ratio)] @
                 [CloseChan, Receive])
              model transcript outputPath ratio)) separator)] \<and>
      set (finished (summarizeRun env
          (sched @ map Finish [0..<length (requests model transcript ratio)] @
             [CloseChan, Receive])
          model transcript outputPath ratio)) = {..<length (requests model transcript ratio)} \<and>
      distinct (finished (summarizeRun env
          (sched @ map Finish [0..<length (requests model transcript ratio)] @
             [CloseChan, Receive])
          model transcript outputPath ratio)) \<and>
      (list_all atomicAppend sched \<longrightarrow>
         summaries (summarizeRun env
            (sched @ map Finish [0..<length (requests model transcript ratio)] @
               [CloseChan, Receive])
            model transcript outputPath ratio) =
         collected env (requests model transcript ratio)
           (finished (summarizeRun env
              (sched @ map Finish [0..<length (requests model transcript ratio)] @
                 [CloseChan, Receive])
              model transcript outputPath ratio))) \<and>
      ((\<forall>a. step env (requests model transcript ratio) outputPath a
               (summarizeRun env sched model transcript outputPath ratio) = None) \<longrightarrow>
         filter isWrite (snd (summarizeText env sched model inputPath outputPath ratio)) =
           [EvWriteFile outputPath
              (Join (summaries (summarizeRun env sched model transcript outputPath ratio))
                 separator)])) \<and>
   Join (x # y # ys) separator = x @ separator @ Join (y # ys) separator \<and>
   Join [x, y] separator =
     x @ [CHR 0x0A, CHR 0x0A] @ ''--- '' @ [CHR 0xE7, CHR 0xAC, CHR 0xAC] @ ''%d'' @
     [CHR 0xE9, CHR 0x83, CHR 0xA8, CHR 0xE5, CHR 0x88, CHR 0x86,
      CHR 0xE7, CHR 0xBB, CHR 0x93, CHR 0xE6, CHR 0x9D, CHR 0x9F] @ '' ---'' @
     [CHR 0x0A, CHR 0x0A] @ y"
proof -
  let ?reqs = "requests model transcript ratio"
  let ?full = "sched @ map Finish [0..<length ?reqs] @ [CloseChan, Receive]"
  have a: "EvWriteFile p c \<in> set (snd (summarizeText env sched model inputPath outputPath ratio)) \<longrightarrow>
      p = outputPath \<and>
      filter isWrite (snd (summarizeText env sched model inputPath outputPath ratio)) =
        [EvWriteFile p c] \<and>
      (\<exists>transcript. readFile env inputPath = Inr transcript \<and>
         c = Join (summaries (summarizeRun env sched model transcript outputPath ratio))
               separator)"
    using summarizeText_write_content by blast
  have b: "filter isWrite (snd (summarizeText env ?full model inputPath outputPath ratio)) =
        [EvWriteFile outputPath
           (Join (summaries (summarizeRun env ?full model transcript outputPath ratio)) separator)] \<and>
      set (finished (summarizeRun env ?full model transcript outputPath ratio)) = {..<length ?reqs} \<and>
      distinct (finished (summarizeRun env ?full model transcript outputPath ratio))"
    if rd: "readFile env inputPath = Inr transcript"
      and an: "\<forall>j<length ?reqs. \<exists>content others. chat env j (?reqs ! j) = Inr (content # others)"
    by (rule answered_trace[OF rd an summarizeRun_completed[OF answered_no_empty[OF an]]])
  have q: "filter isWrite (snd (summarizeText env sched model inputPath outputPath ratio)) =
           [EvWriteFile outputPath
              (Join (summaries (summarizeRun env sched model transcript outputPath ratio))
                 separator)]"
    if rd: "readFile env inputPath = Inr transcript"
      and an: "\<forall>j<length ?reqs. \<exists>content others. chat env j (?reqs ! j) = Inr (content # others)"
      and qu: "\<forall>a. step env ?reqs outputPath a
               (summarizeRun env sched model transcript outputPath ratio) = None"
    using answered_trace[OF rd an summarizeRun_quiescent[OF answered_no_empty[OF an] qu]]
    by blast
  have r: "summaries (summarizeRun env ?full model transcript outputPath ratio) =
         collected env ?reqs (finished (summarizeRun env ?full model transcript outputPath ratio))"
    if "list_all atomicAppend sched"
    by (rule atomic_summarizeRun[OF atomic_full[OF that]])
  have j: "Join (x # y # ys) separator = x @ separator @ Join (y # ys) separator" by simp
  have l: "Join [x, y] separator =
     x @ [CHR 0x0A, CHR 0x0A] @ ''--- '' @ [CHR 0xE7, CHR 0xAC, CHR 0xAC] @ ''%d'' @
     [CHR 0xE9, CHR 0x83, CHR 0xA8, CHR 0xE5, CHR 0x88, CHR 0x86,
      CHR 0xE7, CHR 0xBB, CHR 0x93, CHR 0xE6, CHR 0x9D, CHR 0x9F] @ '' ---'' @
     [CHR 0x0A, CHR 0x0A] @ y"
    by (simp add: separator_def)
  show ?thesis
    apply (intro conjI impI)
    subgoal using a by blast
    subgoal using a by blast
    subgoal using a by blast
    subgoal using b by blast
    subgoal using b by blast
    subgoal using b by blast
    subgoal using r by blast
    subgoal using q by blast
    subgoal by (rule j)
    subgoal by (rule l)
    done
qed


text \<open>
  C10 at the transcript of two chunks where the second request is answered first: the
  trace of \<open>summarizeText\<close> ends with the write of the second fragment, the separator
  with its \<open>%d\<close>, and the first fragment.
\<close>

theorem combined_summary_literal_separator_witness:
  "readFile answeringEnv ''t.txt'' = Inr oneWord \<and>
   length (requests ''m'' oneWord (Finite (3 / 10))) = 2 \<and>
   chat answeringEnv 0 (requests ''m'' oneWord (Finite (3 / 10)) ! 0) = Inr [''first''] \<and>
   chat answeringEnv 1 (requests ''m'' oneWord (Finite (3 / 10)) ! 1) = Inr [''second''] \<and>
   list_all atomicAppend [Finish 1] \<and>
   summarizeText answeringEnv
     ([Finish 1] @ map Finish [0..<length (requests ''m'' oneWord (Finite (3 / 10)))] @
        [CloseChan, Receive])
     ''m'' ''t.txt'' ''out.txt'' (Finite (3 / 10)) =
     (Returned None,
      [EvReadFile ''t.txt'',
       EvRequest 1 \<lparr>reqModel = ''m'', reqText = oneWord, reqRatio = Finite (3 / 10)\<rparr>,
       EvRequest 0 \<lparr>reqModel = ''m'', reqText = [], reqRatio = Finite (3 / 10)\<rparr>,
       EvWriteFile ''out.txt''
         (''second'' @ [CHR 0x0A, CHR 0x0A] @ ''--- '' @ [CHR 0xE7, CHR 0xAC, CHR 0xAC] @
          ''%d'' @
          [CHR 0xE9, CHR 0x83, CHR 0xA8, CHR 0xE5, CHR 0x88, CHR 0x86,
           CHR 0xE7, CHR 0xBB, CHR 0x93, CHR 0xE6, CHR 0x9D, CHR 0x9F] @ '' ---'' @
          [CHR 0x0A, CHR 0x0A] @ ''first'')]) \<and>
   filter isWrite (snd (summarizeText answeringEnv
     ([Finish 1] @ map Finish [0..<length (requests ''m'' oneWord (Finite (3 / 10)))] @
        [CloseChan, Receive])
     ''m'' ''t.txt'' ''out.txt'' (Finite (3 / 10)))) =
     [EvWriteFile ''out.txt'' (Join [''second'', ''first''] separator)] \<and>
   collected answeringEnv (requests ''m'' oneWord (Finite (3 / 10)))
     (finished (summarizeRun answeringEnv
        ([Finish 1] @ map Finish [0..<length (requests ''m'' oneWord (Finite (3 / 10)))] @
           [CloseChan, Receive])
        ''m'' oneWord ''out.txt'' (Finite (3 / 10)))) = [''second'', ''first'']"
proof -
  let ?reqs = "requests ''m'' oneWord (Finite (3 / 10))"
  let ?full = "[Finish 1] @ map Finish [0..<length ?reqs] @ [CloseChan, Receive]"
  have rd: "readFile answeringEnv ''t.txt'' = Inr oneWord"
    by (simp add: answeringEnv_def sampleEnv_def)
  have n: "length ?reqs = 2" by (simp add: two_requests)
  have c0: "chat answeringEnv 0 (?reqs ! 0) = Inr [''first'']"
    and c1: "chat answeringEnv 1 (?reqs ! 1) = Inr [''second'']"
    by (simp_all add: answeringEnv_def sampleEnv_def)
  have an: "\<forall>j<length ?reqs. \<exists>content others. chat answeringEnv j (?reqs ! j) = Inr (content # others)"
    by (simp add: answeringEnv_def sampleEnv_def)
  have at: "list_all atomicAppend [Finish 1]" by simp
  have run: "summaries (summarizeRun answeringEnv ?full ''m'' oneWord ''out.txt'' (Finite (3 / 10)))
              = [''second'', ''first'']"
    and tr: "summarizeText answeringEnv ?full ''m'' ''t.txt'' ''out.txt'' (Finite (3 / 10)) =
       (Returned None,
        [EvReadFile ''t.txt'',
         EvRequest 1 \<lparr>reqModel = ''m'', reqText = oneWord, reqRatio = Finite (3 / 10)\<rparr>,
         EvRequest 0 \<lparr>reqModel = ''m'', reqText = [], reqRatio = Finite (3 / 10)\<rparr>,
         EvWriteFile ''out.txt'' (''second'' @ separator @ ''first'')])"
    unfolding summarizeText_Inr[OF rd] answered_full_run by simp_all
  have sep: "''second'' @ separator @ ''first'' = Join [''second'', ''first''] separator" by simp
  from combined_summary_literal_separator[where env = answeringEnv and model = "''m''"
      and sched = "[Finish 1]" and transcript = oneWord and inputPath = "''t.txt''"
      and outputPath = "''out.txt''" and ratio = "Finite (3 / 10)"
      and x = "''second''" and y = "''first''"]
    rd an at run
  have th: "filter isWrite (snd (summarizeText answeringEnv ?full ''m'' ''t.txt'' ''out.txt''
                (Finite (3 / 10)))) =
        [EvWriteFile ''out.txt'' (Join [''second'', ''first''] separator)]"
    and co: "collected answeringEnv ?reqs
       (finished (summarizeRun answeringEnv ?full ''m'' oneWord ''out.txt'' (Finite (3 / 10)))) =
       [''second'', ''first'']"
    and lit: "Join [''second'', ''first''] separator =
       ''second'' @ [CHR 0x0A, CHR 0x0A] @ ''--- '' @ [CHR 0xE7, CHR 0xAC, CHR 0xAC] @
          ''%d'' @
          [CHR 0xE9, CHR 0x83, CHR 0xA8, CHR 0xE5, CHR 0x88, CHR 0x86,
           CHR 0xE7, CHR 0xBB, CHR 0x93, CHR 0xE6, CHR 0x9D, CHR 0x9F] @ '' ---'' @
          [CHR 0x0A, CHR 0x0A] @ ''first''"
    by simp_all
  show ?thesis
    using rd n c0 c1 at th co tr sep by (simp only: lit)
qed

end
